theory Spec2Isabelle
  imports Main
begin

section \<open>Configuration (new.py, lines 19-24)\<close>

definition RETRY_ATTEMPTS :: nat where
  "RETRY_ATTEMPTS = 3"

definition RETRY_DELAY :: nat where
  "RETRY_DELAY = 5"

definition CONCURRENT_REQUESTS :: nat where
  "CONCURRENT_REQUESTS = 10"

section \<open>Data\<close>

text \<open>
  The status strings a worker writes into the song dictionary:
  \<^verbatim>\<open>"added"\<close>, \<^verbatim>\<open>"not_found"\<close>, \<^verbatim>\<open>"failed_to_add"\<close>, \<^verbatim>\<open>"quota_exceeded"\<close>.
\<close>

datatype status = Added | NotFound | FailedToAdd | QuotaExceeded

text \<open>
  The song dictionary \<^verbatim>\<open>{"id": i, "total": n, "query": q}\<close> built by \<^verbatim>\<open>main\<close>, to which
  the worker adds the keys \<^verbatim>\<open>"status"\<close> and \<^verbatim>\<open>"video_id"\<close>. A status of \<open>None\<close> is
  the key not yet being there; a video id of \<open>None\<close> is Python's \<^verbatim>\<open>None\<close>.
\<close>

record song =
  song_id :: int
  total :: nat
  query :: string
  status :: "status option"
  video_id :: "string option"

text \<open>One entry of the \<^verbatim>\<open>"items"\<close> list of a search response.\<close>

record item =
  title :: string
  videoId :: string

text \<open>
  What one \<^verbatim>\<open>session.get\<close> or \<^verbatim>\<open>session.post\<close> comes back with: an HTTP status
  with the decoded \<^verbatim>\<open>items\<close> of the body (empty when the key is missing), an
  \<^verbatim>\<open>aiohttp.ClientError\<close>, any other instance of \<^verbatim>\<open>Exception\<close>, or
  \<^verbatim>\<open>asyncio.CancelledError\<close>, raised in the coroutine while it waits for the request.
  No handler of the worker catches the last two.
\<close>

datatype response = Http nat "item list" | ClientError | OtherError | Cancelled

datatype request = Get string | Post string string

text \<open>
  What a worker can raise: an instance of \<^verbatim>\<open>Exception\<close>, or
  \<^verbatim>\<open>asyncio.CancelledError\<close>, which is a \<^verbatim>\<open>BaseException\<close> but not an
  \<^verbatim>\<open>Exception\<close>.
\<close>

datatype exn = UnexpectedError | CancelledError

text \<open>
  The module-level flag \<^verbatim>\<open>quota_exceeded\<close> and the value of the semaphore: the state the
  coroutines share.
\<close>

record shared =
  quota_exceeded :: bool
  permits :: nat

text \<open>
  What a client coroutine does next: return a value to its caller, issue a request and wait
  for its response, sleep, or let an exception through.
\<close>

datatype 'a step = Return 'a | Call request | Sleep nat | Raise exn

section \<open>Best match (new.py, lines 158-164)\<close>

definition lower_char :: "char \<Rightarrow> char" where
  "lower_char c =
     (let n = (of_char c :: nat) in if 65 \<le> n \<and> n \<le> 90 then char_of (n + 32) else c)"

definition lower :: "string \<Rightarrow> string" where
  "lower s = map lower_char s"

fun starts_with :: "'a list \<Rightarrow> 'a list \<Rightarrow> bool" where
  "starts_with [] ys = True"
| "starts_with (x # xs) [] = False"
| "starts_with (x # xs) (y # ys) = (x = y \<and> starts_with xs ys)"

text \<open>\<^verbatim>\<open>needle in hay\<close> on strings.\<close>

fun contains :: "'a list \<Rightarrow> 'a list \<Rightarrow> bool" where
  "contains needle [] = starts_with needle []"
| "contains needle (h # hs) = (starts_with needle (h # hs) \<or> contains needle hs)"

definition score :: "item \<Rightarrow> nat" where
  "score it = (if contains ''live'' (lower (title it)) then 0 else 1)"

text \<open>Python's \<^verbatim>\<open>max(items, key=...)\<close>: the first item whose key is maximal.\<close>

fun max_by_key :: "('a \<Rightarrow> nat) \<Rightarrow> 'a \<Rightarrow> 'a list \<Rightarrow> 'a" where
  "max_by_key key best [] = best"
| "max_by_key key best (x # xs) = max_by_key key (if key best < key x then x else best) xs"

section \<open>The request clients\<close>

subsection \<open>\<^verbatim>\<open>async_search_youtube\<close> (new.py, lines 136-186)\<close>

text \<open>The head of the loop \<^verbatim>\<open>for attempt in range(RETRY_ATTEMPTS)\<close>, and line 186 after it.\<close>

definition search_loop :: "nat \<Rightarrow> string \<Rightarrow> string option step" where
  "search_loop attempt q =
     (if attempt < RETRY_ATTEMPTS then Call (Get q) else Return None)"

text \<open>Entry of the coroutine, lines 142-149.\<close>

definition async_search_youtube :: "string \<Rightarrow> shared \<Rightarrow> string option step" where
  "async_search_youtube q sh =
     (if quota_exceeded sh then Return None else search_loop 0 q)"

text \<open>
  The body of the loop once the response of attempt \<open>attempt\<close> is there, lines 152-185.
  A \<^verbatim>\<open>ClientError\<close> on the last attempt ends the loop, and line 186 returns \<^verbatim>\<open>None\<close>.
\<close>

definition search_on_response ::
  "nat \<Rightarrow> response \<Rightarrow> shared \<Rightarrow> string option step \<times> shared" where
  "search_on_response attempt resp sh =
     (case resp of
        Http st items \<Rightarrow>
          if st = 200 then
            (case items of
               [] \<Rightarrow> (Return None, sh)
             | x # xs \<Rightarrow> (Return (Some (videoId (max_by_key score x xs))), sh))
          else if st = 403 \<or> st = 429 then
            (if attempt = RETRY_ATTEMPTS - 1
             then (Return None, sh\<lparr>quota_exceeded := True\<rparr>)
             else (Sleep (RETRY_DELAY * 2 ^ attempt), sh))
          else (Return None, sh)
      | ClientError \<Rightarrow>
          (if attempt < RETRY_ATTEMPTS - 1 then (Sleep RETRY_DELAY, sh) else (Return None, sh))
      | OtherError \<Rightarrow> (Raise UnexpectedError, sh)
      | Cancelled \<Rightarrow> (Raise CancelledError, sh))"

subsection \<open>\<^verbatim>\<open>async_add_to_playlist\<close> (new.py, lines 189-239)\<close>

definition add_loop :: "nat \<Rightarrow> string \<Rightarrow> string \<Rightarrow> bool step" where
  "add_loop attempt playlist_id vid =
     (if attempt < RETRY_ATTEMPTS then Call (Post playlist_id vid) else Return False)"

definition async_add_to_playlist :: "string \<Rightarrow> string \<Rightarrow> shared \<Rightarrow> bool step" where
  "async_add_to_playlist playlist_id vid sh =
     (if quota_exceeded sh then Return False else add_loop 0 playlist_id vid)"

definition add_on_response :: "nat \<Rightarrow> response \<Rightarrow> shared \<Rightarrow> bool step \<times> shared" where
  "add_on_response attempt resp sh =
     (case resp of
        Http st items \<Rightarrow>
          if st = 200 then (Return True, sh)
          else if st = 409 then (Return True, sh)
          else if st = 403 \<or> st = 429 then
            (if attempt = RETRY_ATTEMPTS - 1
             then (Return False, sh\<lparr>quota_exceeded := True\<rparr>)
             else (Sleep (RETRY_DELAY * 2 ^ attempt), sh))
          else (Return False, sh)
      | ClientError \<Rightarrow>
          (if attempt < RETRY_ATTEMPTS - 1 then (Sleep RETRY_DELAY, sh) else (Return False, sh))
      | OtherError \<Rightarrow> (Raise UnexpectedError, sh)
      | Cancelled \<Rightarrow> (Raise CancelledError, sh))"

section \<open>The worker: \<^verbatim>\<open>process_song_worker\<close> (new.py, lines 242-284)\<close>

text \<open>
  Where a worker coroutine is suspended: before \<^verbatim>\<open>async with semaphore\<close>; in
  \<^verbatim>\<open>session.get\<close> of a search attempt; in the sleep after a search attempt; in
  \<^verbatim>\<open>session.post\<close> of an insert attempt for a video id; in the sleep after an insert
  attempt; or finished, with the dictionary it returned or the exception it raised.
\<close>

datatype pc =
    Pending
  | Searching nat
  | SearchBackoff nat
  | Adding nat string
  | AddBackoff nat string
  | Finished "exn + song"

text \<open>
  A worker invocation: its song, where it stands, and the requests it has issued and the
  sleeps it has started so far, oldest first.
\<close>

record task =
  t_song :: song
  t_pc :: pc
  t_calls :: "request list"
  t_sleeps :: "nat list"

text \<open>What wakes a suspended coroutine up.\<close>

datatype event = Acquired | Resp response | Woke

text \<open>Leaving \<^verbatim>\<open>async with semaphore\<close>, by \<^verbatim>\<open>return\<close> or by an exception, releases it.\<close>

definition finish :: "exn + song \<Rightarrow> task \<Rightarrow> shared \<Rightarrow> task \<times> shared" where
  "finish res t sh = (t\<lparr>t_pc := Finished res\<rparr>, sh\<lparr>permits := Suc (permits sh)\<rparr>)"

definition outcome :: "status \<Rightarrow> string option \<Rightarrow> task \<Rightarrow> exn + song" where
  "outcome st vid t = Inr ((t_song t)\<lparr>status := Some st, video_id := vid\<rparr>)"

text \<open>Lines 268-276 and 284, once \<^verbatim>\<open>async_add_to_playlist\<close> has returned \<open>ok\<close>.\<close>

definition after_add :: "bool \<Rightarrow> string \<Rightarrow> task \<Rightarrow> shared \<Rightarrow> task \<times> shared" where
  "after_add ok vid t sh =
     (if ok then finish (outcome Added (Some vid) t) t sh
      else if quota_exceeded sh then finish (outcome QuotaExceeded (Some vid) t) t sh
      else finish (outcome FailedToAdd (Some vid) t) t sh)"

text \<open>The worker carrying on with what \<^verbatim>\<open>async_add_to_playlist\<close> does next.\<close>

definition add_step :: "nat \<Rightarrow> string \<Rightarrow> bool step \<Rightarrow> task \<Rightarrow> shared \<Rightarrow> task \<times> shared" where
  "add_step attempt vid s t sh =
     (case s of
        Return ok \<Rightarrow> after_add ok vid t sh
      | Call r \<Rightarrow> (t\<lparr>t_pc := Adding attempt vid, t_calls := t_calls t @ [r]\<rparr>, sh)
      | Sleep w \<Rightarrow> (t\<lparr>t_pc := AddBackoff attempt vid, t_sleeps := t_sleeps t @ [w]\<rparr>, sh)
      | Raise e \<Rightarrow> finish (Inl e) t sh)"

text \<open>
  Lines 263-284, once \<^verbatim>\<open>async_search_youtube\<close> has returned \<open>v\<close>. Python's
  \<^verbatim>\<open>if video_id:\<close> is false for \<^verbatim>\<open>None\<close> and for the empty string.
\<close>

definition after_search :: "string \<Rightarrow> string option \<Rightarrow> task \<Rightarrow> shared \<Rightarrow> task \<times> shared" where
  "after_search playlist_id v t sh =
     (if quota_exceeded sh then finish (outcome QuotaExceeded None t) t sh
      else if v \<noteq> None \<and> v \<noteq> Some []
      then add_step 0 (the v) (async_add_to_playlist playlist_id (the v) sh) t sh
      else if quota_exceeded sh then finish (outcome QuotaExceeded None t) t sh
      else finish (outcome NotFound None t) t sh)"

definition search_step ::
  "string \<Rightarrow> nat \<Rightarrow> string option step \<Rightarrow> task \<Rightarrow> shared \<Rightarrow> task \<times> shared" where
  "search_step playlist_id attempt s t sh =
     (case s of
        Return v \<Rightarrow> after_search playlist_id v t sh
      | Call r \<Rightarrow> (t\<lparr>t_pc := Searching attempt, t_calls := t_calls t @ [r]\<rparr>, sh)
      | Sleep w \<Rightarrow> (t\<lparr>t_pc := SearchBackoff attempt, t_sleeps := t_sleeps t @ [w]\<rparr>, sh)
      | Raise e \<Rightarrow> finish (Inl e) t sh)"

text \<open>
  Lines 252-261: the coroutine gets past \<^verbatim>\<open>async with semaphore\<close> only when the
  semaphore has a permit left; otherwise it stays suspended there.
\<close>

definition process_song_worker :: "string \<Rightarrow> task \<Rightarrow> shared \<Rightarrow> task \<times> shared" where
  "process_song_worker playlist_id t sh =
     (if permits sh = 0 then (t, sh)
      else
        let sh1 = sh\<lparr>permits := permits sh - 1\<rparr> in
        if quota_exceeded sh1 then finish (outcome QuotaExceeded None t) t sh1
        else search_step playlist_id 0 (async_search_youtube (query (t_song t)) sh1) t sh1)"

text \<open>
  One uninterrupted run of a worker coroutine, from the point where it is suspended to its
  next suspension. An event that does not fit the suspension point changes nothing.
\<close>

definition resume :: "string \<Rightarrow> event \<Rightarrow> task \<Rightarrow> shared \<Rightarrow> task \<times> shared" where
  "resume playlist_id ev t sh =
     (case (t_pc t, ev) of
        (Pending, Acquired) \<Rightarrow> process_song_worker playlist_id t sh
      | (Searching a, Resp r) \<Rightarrow>
          (let (s, sh') = search_on_response a r sh in search_step playlist_id a s t sh')
      | (SearchBackoff a, Woke) \<Rightarrow>
          search_step playlist_id (Suc a) (search_loop (Suc a) (query (t_song t))) t sh
      | (Adding a vid, Resp r) \<Rightarrow>
          (let (s, sh') = add_on_response a r sh in add_step a vid s t sh')
      | (AddBackoff a vid, Woke) \<Rightarrow>
          add_step (Suc a) vid (add_loop (Suc a) playlist_id vid) t sh
      | _ \<Rightarrow> (t, sh))"

section \<open>The event loop running the gathered tasks\<close>

text \<open>
  \<^verbatim>\<open>asyncio\<close> runs one coroutine at a time and switches only at an \<^verbatim>\<open>await\<close>. A
  schedule lists, in order, which task is resumed and with what.
\<close>

definition step_sys ::
  "string \<Rightarrow> nat \<times> event \<Rightarrow> shared \<times> task list \<Rightarrow> shared \<times> task list" where
  "step_sys playlist_id ie st =
     (let (sh, ts) = st; (i, ev) = ie in
      if i < length ts
      then (let (t', sh') = resume playlist_id ev (ts ! i) sh in (sh', ts[i := t']))
      else (sh, ts))"

definition exec ::
  "string \<Rightarrow> (nat \<times> event) list \<Rightarrow> shared \<times> task list \<Rightarrow> shared \<times> task list" where
  "exec playlist_id sched st = fold (step_sys playlist_id) sched st"

definition new_task :: "song \<Rightarrow> task" where
  "new_task s = \<lparr>t_song = s, t_pc = Pending, t_calls = [], t_sleeps = []\<rparr>"

text \<open>
  \<^verbatim>\<open>asyncio.gather(*tasks, return_exceptions=True)\<close> returns once every task has
  finished, with their results in the order of the tasks; until then \<^verbatim>\<open>main\<close> stays
  suspended (\<open>None\<close>).
\<close>

fun collect :: "task list \<Rightarrow> (exn + song) list option" where
  "collect [] = Some []"
| "collect (t # ts) =
     (case t_pc t of
        Finished r \<Rightarrow> (case collect ts of None \<Rightarrow> None | Some rs \<Rightarrow> Some (r # rs))
      | _ \<Rightarrow> None)"

definition gather ::
  "string \<Rightarrow> (nat \<times> event) list \<Rightarrow> shared \<Rightarrow> song list \<Rightarrow> ((exn + song) list \<times> shared) option" where
  "gather playlist_id sched sh tasks =
     (let (sh', ts) = exec playlist_id sched (sh, map new_task tasks) in
      case collect ts of None \<Rightarrow> None | Some rs \<Rightarrow> Some (rs, sh'))"

section \<open>The ledger: \<^verbatim>\<open>load_progress\<close> and \<^verbatim>\<open>save_progress\<close> (new.py, lines 290-317)\<close>

text \<open>
  The dictionary written to and read from \<^verbatim>\<open>progress.json\<close>; \<open>None\<close> is a missing
  key. The keys of \<^verbatim>\<open>"songs"\<close> are strings.
\<close>

record ledger_json =
  last_updated :: "string option"
  processed_indices :: "int list option"
  songs :: "(string \<rightharpoonup> song) option"

text \<open>
  The file is absent (\<open>None\<close>) or holds a text. \<^verbatim>\<open>json.load\<close> and \<^verbatim>\<open>json.dump\<close>
  belong to the standard library and are parameters: \<open>json_load\<close> gives \<open>None\<close> where
  reading the dictionary raises, which \<^verbatim>\<open>load_progress\<close> catches.
\<close>

definition load_progress ::
  "(string \<Rightarrow> ledger_json option) \<Rightarrow> string option \<Rightarrow> int set \<times> (string \<rightharpoonup> song)" where
  "load_progress json_load file =
     (case file of
        None \<Rightarrow> ({}, Map.empty)
      | Some text \<Rightarrow>
          (case json_load text of
             None \<Rightarrow> ({}, Map.empty)
           | Some data \<Rightarrow>
               (set (case processed_indices data of None \<Rightarrow> [] | Some xs \<Rightarrow> xs),
                case songs data of None \<Rightarrow> Map.empty | Some m \<Rightarrow> m)))"

text \<open>
  How far a save gets. \<^verbatim>\<open>open(PROGRESS_FILE, "w")\<close> may raise, which is caught and leaves
  the file as it was; once it has succeeded the file is truncated, and the text of
  \<^verbatim>\<open>json.dump\<close> goes into it front to back: all of it, or only its first \<open>n\<close> characters
  when the process dies or the writing raises on the way.
\<close>

datatype save_fate = OpenFails | Stops nat | Completes

definition ledger_text ::
  "(ledger_json \<Rightarrow> string) \<Rightarrow> string \<Rightarrow> int set \<Rightarrow> (string \<rightharpoonup> song) \<Rightarrow> string" where
  "ledger_text json_dump now processed song_data =
     json_dump \<lparr>last_updated = Some now,
                processed_indices = Some (sorted_list_of_set processed),
                songs = Some song_data\<rparr>"

definition save_progress ::
  "(ledger_json \<Rightarrow> string) \<Rightarrow> string \<Rightarrow> save_fate \<Rightarrow>
     int set \<Rightarrow> (string \<rightharpoonup> song) \<Rightarrow> string option \<Rightarrow> string option" where
  "save_progress json_dump now fate processed song_data file =
     (case fate of
        OpenFails \<Rightarrow> file
      | Stops n \<Rightarrow> Some (take n (ledger_text json_dump now processed song_data))
      | Completes \<Rightarrow> Some (ledger_text json_dump now processed song_data))"

section \<open>\<^verbatim>\<open>main\<close> (new.py, lines 320-390)\<close>

text \<open>Python's \<^verbatim>\<open>str\<close> on an integer.\<close>

fun str_nat :: "nat \<Rightarrow> string" where
  "str_nat n =
     (if n < 10 then [char_of (48 + n)] else str_nat (n div 10) @ [char_of (48 + n mod 10)])"

definition str :: "int \<Rightarrow> string" where
  "str i = (if i < 0 then CHR ''-'' # str_nat (nat (- i)) else str_nat (nat i))"

text \<open>\<^verbatim>\<open>enumerate(xs, n)\<close>.\<close>

fun enumerate_from :: "int \<Rightarrow> 'a list \<Rightarrow> (int \<times> 'a) list" where
  "enumerate_from n [] = []"
| "enumerate_from n (x # xs) = (n, x) # enumerate_from (n + 1) xs"

text \<open>Lines 340-345.\<close>

definition songs_to_process :: "string list \<Rightarrow> int set \<Rightarrow> song list" where
  "songs_to_process spotify_songs processed =
     map (\<lambda>(i, q). \<lparr>song_id = i, total = length spotify_songs, query = q,
                     status = None, video_id = None\<rparr>)
       (filter (\<lambda>(i, q). i \<notin> processed) (enumerate_from 1 spotify_songs))"

text \<open>
  Lines 357-364: the loop creating the coroutines. Creating a coroutine runs none of its
  body, so the flag read by each iteration is the one the loop started with.
\<close>

fun create_tasks :: "shared \<Rightarrow> song list \<Rightarrow> song list" where
  "create_tasks sh [] = []"
| "create_tasks sh (s # rest) = (if quota_exceeded sh then [] else s # create_tasks sh rest)"

text \<open>
  Lines 371-376. A result that is an instance of \<^verbatim>\<open>Exception\<close> is skipped. A result
  that is a \<^verbatim>\<open>CancelledError\<close> is not, and \<^verbatim>\<open>res["id"]\<close> raises \<^verbatim>\<open>TypeError\<close> on
  it: the loop ends there (\<open>Inl\<close>, with the ledger as the loop has left it), and the handler
  of line 387 catches the error.
\<close>

fun merge_results ::
  "(exn + song) list \<Rightarrow> int set \<times> (string \<rightharpoonup> song) \<Rightarrow>
     (int set \<times> (string \<rightharpoonup> song)) + (int set \<times> (string \<rightharpoonup> song))" where
  "merge_results [] led = Inr led"
| "merge_results (Inl UnexpectedError # rs) led = merge_results rs led"
| "merge_results (Inl CancelledError # rs) led = Inl led"
| "merge_results (Inr res # rs) (processed, song_data) =
     merge_results rs (insert (song_id res) processed, song_data(str (song_id res) \<mapsto> res))"

text \<open>
  What a run leaves behind: the ledger file, how often \<^verbatim>\<open>save_progress\<close> was called, the
  tasks created (in order), the tasks as the event loop left them, the flag, and the ledger
  in memory.
\<close>

record run =
  ledger_file :: "string option"
  saves :: nat
  tasks :: "song list"
  workers :: "task list"
  breaker :: bool
  ledger :: "int set \<times> (string \<rightharpoonup> song)"

text \<open>
  The run. \<open>resolved\<close> is the playlist id that \<^verbatim>\<open>get_youtube_credentials\<close> and
  \<^verbatim>\<open>get_or_create_youtube_playlist\<close> arrive at, or \<open>None\<close> when one of them raises, which
  the handler of line 387 catches. \<open>sched\<close> is what the event loop does while \<^verbatim>\<open>main\<close>
  waits in \<^verbatim>\<open>gather\<close>; when it leaves a task unfinished, \<^verbatim>\<open>main\<close> never gets past
  line 368. When the merge of the results raises, \<^verbatim>\<open>save_progress\<close> is not called.
\<close>

definition main ::
  "(string \<Rightarrow> ledger_json option) \<Rightarrow> (ledger_json \<Rightarrow> string) \<Rightarrow> string \<Rightarrow> string option \<Rightarrow>
     save_fate \<Rightarrow> (nat \<times> event) list \<Rightarrow> string list \<Rightarrow> string option \<Rightarrow> run" where
  "main json_load json_dump now resolved fate sched spotify_songs file =
     (let sh = \<lparr>quota_exceeded = False, permits = CONCURRENT_REQUESTS\<rparr>;
          idle = \<lparr>ledger_file = file, saves = 0, tasks = [], workers = [],
                  breaker = quota_exceeded sh, ledger = ({}, Map.empty)\<rparr>
      in
      if spotify_songs = [] then idle
      else
        case resolved of
          None \<Rightarrow> idle
        | Some playlist_id \<Rightarrow>
            let (processed, song_data) = load_progress json_load file;
                to_process = songs_to_process spotify_songs processed
            in
            if to_process = [] then idle\<lparr>ledger := (processed, song_data)\<rparr>
            else
              let created = create_tasks sh to_process in
              if created \<noteq> [] then
                (case gather playlist_id sched sh created of
                   None \<Rightarrow>
                     idle\<lparr>tasks := created,
                          workers := snd (exec playlist_id sched (sh, map new_task created)),
                          breaker := quota_exceeded
                            (fst (exec playlist_id sched (sh, map new_task created))),
                          ledger := (processed, song_data)\<rparr>
                 | Some (results, sh') \<Rightarrow>
                     (case merge_results results (processed, song_data) of
                        Inl led \<Rightarrow>
                          \<lparr>ledger_file = file, saves = 0, tasks = created,
                            workers = snd (exec playlist_id sched (sh, map new_task created)),
                            breaker = quota_exceeded sh', ledger = led\<rparr>
                      | Inr (processed', song_data') \<Rightarrow>
                          \<lparr>ledger_file =
                             save_progress json_dump now fate processed' song_data' file,
                           saves = 1, tasks = created,
                           workers = snd (exec playlist_id sched (sh, map new_task created)),
                           breaker = quota_exceeded sh',
                           ledger = (processed', song_data')\<rparr>))
              else idle\<lparr>ledger := (processed, song_data)\<rparr>)"

section \<open>Counting the requests of a worker\<close>

fun rate_limited :: "response \<Rightarrow> bool" where
  "rate_limited (Http st items) = (st = 403 \<or> st = 429)"
| "rate_limited ClientError = False"
| "rate_limited OtherError = False"
| "rate_limited Cancelled = False"

fun is_get :: "request \<Rightarrow> bool" where
  "is_get (Get q) = True"
| "is_get (Post p v) = False"

definition n_get :: "task \<Rightarrow> nat" where
  "n_get t = length (filter is_get (t_calls t))"

definition n_post :: "task \<Rightarrow> nat" where
  "n_post t = length (filter (\<lambda>r. \<not> is_get r) (t_calls t))"

text \<open>What the requests issued so far look like at each suspension point.\<close>

definition calls_inv :: "task \<Rightarrow> bool" where
  "calls_inv t =
     (case t_pc t of
        Pending \<Rightarrow> t_calls t = []
      | Searching a \<Rightarrow> a < RETRY_ATTEMPTS \<and> n_get t = Suc a \<and> n_post t = 0
      | SearchBackoff a \<Rightarrow> Suc a < RETRY_ATTEMPTS \<and> n_get t = Suc a \<and> n_post t = 0
      | Adding a v \<Rightarrow>
          a < RETRY_ATTEMPTS \<and> 0 < n_get t \<and> n_get t \<le> RETRY_ATTEMPTS \<and> n_post t = Suc a
      | AddBackoff a v \<Rightarrow>
          Suc a < RETRY_ATTEMPTS \<and> 0 < n_get t \<and> n_get t \<le> RETRY_ATTEMPTS \<and> n_post t = Suc a
      | Finished r \<Rightarrow>
          n_get t \<le> RETRY_ATTEMPTS \<and> n_post t \<le> RETRY_ATTEMPTS \<and>
          (if n_get t = 0 then n_post t = 0 \<and> r = outcome QuotaExceeded None t else True))"

text \<open>The ledger invariant: the processed indices, as strings, are the keys of the songs.\<close>

definition ledger_inv :: "int set \<times> (string \<rightharpoonup> song) \<Rightarrow> bool" where
  "ledger_inv led = (str ` fst led = dom (snd led))"

section \<open>Workers once the breaker is tripped\<close>

text \<open>A worker that has issued no request, and has either not begun or returned
  \<^verbatim>\<open>quota_exceeded\<close>.\<close>

definition unstarted :: "task \<Rightarrow> bool" where
  "unstarted t =
     (t_calls t = [] \<and> (t_pc t = Pending \<or> t_pc t = Finished (outcome QuotaExceeded None t)))"

text \<open>A worker that has issued no insert request, and is either not past its search or has
  returned \<^verbatim>\<open>quota_exceeded\<close> without a video id, or raised.\<close>

definition no_insert :: "task \<Rightarrow> bool" where
  "no_insert t =
     (n_post t = 0 \<and>
      (case t_pc t of
         Pending \<Rightarrow> True
       | Searching a \<Rightarrow> True
       | SearchBackoff a \<Rightarrow> True
       | Adding a v \<Rightarrow> False
       | AddBackoff a v \<Rightarrow> False
       | Finished r \<Rightarrow> r = outcome QuotaExceeded None t \<or> isl r))"


section \<open>Runs one after another\<close>

text \<open>The ledger in memory when the merge loop ends, by itself or by raising.\<close>

definition merged ::
  "(int set \<times> (string \<rightharpoonup> song)) + (int set \<times> (string \<rightharpoonup> song)) \<Rightarrow>
     int set \<times> (string \<rightharpoonup> song)" where
  "merged r = (case r of Inl led \<Rightarrow> led | Inr led \<Rightarrow> led)"

text \<open>
  What a run is given besides the ledger file: the clock, the outcome of the setup, how far
  its save gets, what the event loop does, and the source list.
\<close>

record run_input =
  in_now :: string
  in_resolved :: "string option"
  in_fate :: save_fate
  in_sched :: "(nat \<times> event) list"
  in_songs :: "string list"

definition run_main ::
  "(string \<Rightarrow> ledger_json option) \<Rightarrow> (ledger_json \<Rightarrow> string) \<Rightarrow> run_input \<Rightarrow>
     string option \<Rightarrow> run" where
  "run_main json_load json_dump i file =
     main json_load json_dump (in_now i) (in_resolved i) (in_fate i) (in_sched i) (in_songs i)
       file"

text \<open>The ledger file after a sequence of runs, each starting from the file the one before
  left.\<close>

fun later_file ::
  "(string \<Rightarrow> ledger_json option) \<Rightarrow> (ledger_json \<Rightarrow> string) \<Rightarrow> run_input list \<Rightarrow>
     string option \<Rightarrow> string option" where
  "later_file json_load json_dump [] file = file"
| "later_file json_load json_dump (i # rest) file =
     later_file json_load json_dump rest (ledger_file (run_main json_load json_dump i file))"


text \<open>\<^verbatim>\<open>json.load\<close> reads the text that \<^verbatim>\<open>save_progress\<close> writes for a ledger back as
  the dictionary it was written from.\<close>

definition reads_back ::
  "(string \<Rightarrow> ledger_json option) \<Rightarrow> (ledger_json \<Rightarrow> string) \<Rightarrow> string \<Rightarrow>
     int set \<times> (string \<rightharpoonup> song) \<Rightarrow> bool" where
  "reads_back json_load json_dump now led =
     (json_load (ledger_text json_dump now (fst led) (snd led)) =
        Some \<lparr>last_updated = Some now,
              processed_indices = Some (sorted_list_of_set (fst led)),
              songs = Some (snd led)\<rparr>)"

text \<open>
  The save of a run does not lose the ledger: the run made no save, or the file could not be
  opened, or the save completed and reads back.
\<close>

definition save_kept ::
  "(string \<Rightarrow> ledger_json option) \<Rightarrow> (ledger_json \<Rightarrow> string) \<Rightarrow> run_input \<Rightarrow> run \<Rightarrow> bool" where
  "save_kept json_load json_dump i r =
     (saves r = 0 \<or> in_fate i = OpenFails \<or>
      (in_fate i = Completes \<and> reads_back json_load json_dump (in_now i) (ledger r)))"

fun saves_kept ::
  "(string \<Rightarrow> ledger_json option) \<Rightarrow> (ledger_json \<Rightarrow> string) \<Rightarrow> run_input list \<Rightarrow>
     string option \<Rightarrow> bool" where
  "saves_kept json_load json_dump [] file = True"
| "saves_kept json_load json_dump (i # rest) file =
     (save_kept json_load json_dump i (run_main json_load json_dump i file) \<and>
      saves_kept json_load json_dump rest
        (ledger_file (run_main json_load json_dump i file)))"

section \<open>Properties of the worker\<close>

lemmas client_defs = async_search_youtube_def search_loop_def
  search_on_response_def async_add_to_playlist_def add_loop_def add_on_response_def

lemmas glue_defs = process_song_worker_def search_step_def after_search_def
  add_step_def after_add_def finish_def outcome_def

lemma add_step_song [simp]: "t_song (fst (add_step a vid s t sh)) = t_song t"
  by (cases s) (simp_all add: add_step_def after_add_def finish_def)

lemma after_search_song [simp]: "t_song (fst (after_search pl v t sh)) = t_song t"
  by (simp add: after_search_def finish_def)

lemma search_step_song [simp]: "t_song (fst (search_step pl a s t sh)) = t_song t"
  by (cases s) (simp_all add: search_step_def finish_def)

lemma resume_song: "t_song (fst (resume pl ev t sh)) = t_song t"
  by (cases "t_pc t"; cases ev)
    (simp_all add: resume_def process_song_worker_def finish_def Let_def case_prod_beta)

lemma after_add_inv:
  assumes "0 < n_get t" "n_get t \<le> RETRY_ATTEMPTS" "n_post t \<le> RETRY_ATTEMPTS"
  shows "calls_inv (fst (after_add ok vid t sh))"
  using assms
  by (simp add: after_add_def finish_def calls_inv_def n_get_def n_post_def)

lemma after_search_inv:
  assumes "0 < n_get t" "n_get t \<le> RETRY_ATTEMPTS" "n_post t = 0"
  shows "calls_inv (fst (after_search pl v t sh))"
  using assms
  by (simp add: after_search_def add_step_def after_add_def finish_def
      async_add_to_playlist_def add_loop_def calls_inv_def n_get_def n_post_def RETRY_ATTEMPTS_def)

lemma search_on_response_result:
  "(\<exists>e. fst (search_on_response a r sh) = Raise e) \<or>
   (\<exists>v. fst (search_on_response a r sh) = Return v) \<or>
   (\<exists>w. fst (search_on_response a r sh) = Sleep w \<and> a \<noteq> RETRY_ATTEMPTS - 1)"
  by (cases r) (simp_all add: search_on_response_def split: list.split)

lemma add_on_response_result:
  "(\<exists>e. fst (add_on_response a r sh) = Raise e) \<or>
   (\<exists>ok. fst (add_on_response a r sh) = Return ok) \<or>
   (\<exists>w. fst (add_on_response a r sh) = Sleep w \<and> a \<noteq> RETRY_ATTEMPTS - 1)"
  by (cases r) (auto simp: add_on_response_def)

lemma searching_inv:
  assumes "calls_inv t" "t_pc t = Searching a"
  shows "calls_inv (fst (search_step pl a (fst (search_on_response a r sh)) t sh'))"
proof -
  from assms have a: "a < RETRY_ATTEMPTS" "n_get t = Suc a" "n_post t = 0"
    by (simp_all add: calls_inv_def)
  then have pre: "0 < n_get t" "n_get t \<le> RETRY_ATTEMPTS" by simp_all
  from search_on_response_result [of a r sh] show ?thesis
  proof (elim disjE exE conjE)
    fix e assume "fst (search_on_response a r sh) = Raise e"
    with a show ?thesis
      by (simp add: search_step_def finish_def calls_inv_def n_get_def n_post_def)
  next
    fix v assume "fst (search_on_response a r sh) = Return v"
    with after_search_inv [OF pre a(3)] show ?thesis
      by (simp add: search_step_def)
  next
    fix w assume "fst (search_on_response a r sh) = Sleep w" "a \<noteq> RETRY_ATTEMPTS - 1"
    with a show ?thesis
      by (simp add: search_step_def calls_inv_def n_get_def n_post_def RETRY_ATTEMPTS_def)
  qed
qed

lemma adding_inv:
  assumes "calls_inv t" "t_pc t = Adding a vid"
  shows "calls_inv (fst (add_step a vid (fst (add_on_response a r sh)) t sh'))"
proof -
  from assms have a: "a < RETRY_ATTEMPTS" "0 < n_get t" "n_get t \<le> RETRY_ATTEMPTS"
      "n_post t = Suc a"
    by (simp_all add: calls_inv_def)
  then have post: "n_post t \<le> RETRY_ATTEMPTS" by simp
  from add_on_response_result [of a r sh] show ?thesis
  proof (elim disjE exE conjE)
    fix e assume "fst (add_on_response a r sh) = Raise e"
    with a show ?thesis
      by (simp add: add_step_def finish_def calls_inv_def n_get_def n_post_def)
  next
    fix ok assume "fst (add_on_response a r sh) = Return ok"
    with after_add_inv [OF a(2) a(3) post] show ?thesis
      by (simp add: add_step_def)
  next
    fix w assume "fst (add_on_response a r sh) = Sleep w" "a \<noteq> RETRY_ATTEMPTS - 1"
    with a show ?thesis
      by (simp add: add_step_def calls_inv_def n_get_def n_post_def RETRY_ATTEMPTS_def)
  qed
qed

lemma resume_calls_inv:
  assumes "calls_inv t"
  shows "calls_inv (fst (resume pl ev t sh))"
proof (cases "t_pc t")
  case Pending
  with assms show ?thesis
    by (cases ev)
      (simp_all add: resume_def process_song_worker_def async_search_youtube_def
        search_loop_def search_step_def finish_def outcome_def Let_def RETRY_ATTEMPTS_def
        calls_inv_def n_get_def n_post_def)
next
  case (Searching a)
  with assms searching_inv [OF assms Searching] show ?thesis
    by (cases ev) (simp_all add: resume_def case_prod_beta)
next
  case (SearchBackoff a)
  with assms show ?thesis
    by (cases ev)
      (simp_all add: resume_def search_step_def search_loop_def RETRY_ATTEMPTS_def
        calls_inv_def n_get_def n_post_def)
next
  case (Adding a v)
  with assms adding_inv [OF assms Adding] show ?thesis
    by (cases ev) (simp_all add: resume_def case_prod_beta)
next
  case (AddBackoff a v)
  with assms show ?thesis
    by (cases ev)
      (simp_all add: resume_def add_step_def add_loop_def RETRY_ATTEMPTS_def
        calls_inv_def n_get_def n_post_def)
next
  case (Finished r)
  with assms show ?thesis by (simp add: resume_def)
qed

lemma step_sys_eq:
  "step_sys pl (i, ev) (sh, ts) =
     (if i < length ts
      then (snd (resume pl ev (ts ! i) sh), ts[i := fst (resume pl ev (ts ! i) sh)])
      else (sh, ts))"
  by (simp add: step_sys_def case_prod_beta)

lemma step_sys_length: "length (snd (step_sys pl ie st)) = length (snd st)"
  by (cases ie; cases st) (simp add: step_sys_eq)

lemma exec_Nil [simp]: "exec pl [] st = st"
  by (simp add: exec_def)

lemma exec_Cons [simp]: "exec pl (ie # sched) st = exec pl sched (step_sys pl ie st)"
  by (simp add: exec_def)

lemma exec_append: "exec pl (xs @ ys) st = exec pl ys (exec pl xs st)"
  by (simp add: exec_def)

lemma exec_length: "length (snd (exec pl sched st)) = length (snd st)"
  by (induction sched arbitrary: st) (simp_all add: step_sys_length)

lemma step_sys_songs: "map t_song (snd (step_sys pl ie st)) = map t_song (snd st)"
  by (cases ie; cases st) (simp add: step_sys_eq map_update resume_song list_update_same_conv)

lemma exec_songs: "map t_song (snd (exec pl sched st)) = map t_song (snd st)"
  by (induction sched arbitrary: st) (simp_all add: step_sys_songs)

lemma step_sys_calls_inv:
  assumes "list_all calls_inv (snd st)"
  shows "list_all calls_inv (snd (step_sys pl ie st))"
proof -
  obtain sh ts where st: "st = (sh, ts)" by (cases st)
  obtain i ev where ie: "ie = (i, ev)" by (cases ie)
  show ?thesis
  proof (cases "i < length ts")
    case True
    with assms st have "calls_inv (ts ! i)"
      by (simp add: list_all_length)
    then have "calls_inv (fst (resume pl ev (ts ! i) sh))"
      by (rule resume_calls_inv)
    with assms st True have "list_all calls_inv (ts[i := fst (resume pl ev (ts ! i) sh)])"
      by (auto simp: list_all_length nth_list_update)
    with True st ie show ?thesis
      by (simp add: step_sys_eq)
  next
    case False
    with assms st ie show ?thesis by (simp add: step_sys_eq)
  qed
qed

lemma exec_calls_inv:
  "list_all calls_inv (snd st) \<Longrightarrow> list_all calls_inv (snd (exec pl sched st))"
  by (induction sched arbitrary: st) (simp_all add: step_sys_calls_inv)

lemma calls_split: "length (t_calls t) = n_get t + n_post t"
  by (simp add: n_get_def n_post_def sum_length_filter_compl)

lemma calls_inv_bounds:
  assumes "calls_inv t"
  shows "n_get t \<le> RETRY_ATTEMPTS \<and> n_post t \<le> RETRY_ATTEMPTS \<and> (n_get t = 0 \<longrightarrow> n_post t = 0)"
  using assms
  by (cases "t_pc t") (auto simp: calls_inv_def n_get_def n_post_def split: if_splits)

lemma calls_inv_none:
  assumes "calls_inv t" and "t_pc t = Finished r" and "t_calls t = []"
  shows "r = outcome QuotaExceeded None t"
  using assms by (simp add: calls_inv_def n_get_def)

lemma new_task_calls_inv: "list_all calls_inv (map new_task sl)"
  by (simp add: list_all_iff calls_inv_def new_task_def)

text \<open>
  Claim C3, as the code has it. A worker invocation issues no request when the breaker is
  tripped as it enters, and its first request, a search, when it is not. Whatever the event
  loop does, an invocation has issued at most \<open>RETRY_ATTEMPTS\<close> search requests and at most
  \<open>RETRY_ATTEMPTS\<close> insert requests, no insert request without a search request before, and
  an invocation that finished without any request returned status \<^verbatim>\<open>quota_exceeded\<close>. So
  the number of requests of an invocation is anything from 0 to twice \<open>RETRY_ATTEMPTS\<close>, not
  only 0 or 2.
\<close>

theorem worker_remote_calls:
  "(0 < permits sh \<longrightarrow>
      t_calls (fst (resume pl Acquired (new_task s) sh)) =
        (if quota_exceeded sh then [] else [Get (query s)])) \<and>
   (i < length sl \<longrightarrow>
      t_song (snd (exec pl sched (sh, map new_task sl)) ! i) = sl ! i \<and>
      n_get (snd (exec pl sched (sh, map new_task sl)) ! i) \<le> RETRY_ATTEMPTS \<and>
      n_post (snd (exec pl sched (sh, map new_task sl)) ! i) \<le> RETRY_ATTEMPTS \<and>
      (n_get (snd (exec pl sched (sh, map new_task sl)) ! i) = 0 \<longrightarrow>
         n_post (snd (exec pl sched (sh, map new_task sl)) ! i) = 0) \<and>
      length (t_calls (snd (exec pl sched (sh, map new_task sl)) ! i)) =
        n_get (snd (exec pl sched (sh, map new_task sl)) ! i) +
        n_post (snd (exec pl sched (sh, map new_task sl)) ! i) \<and>
      (\<forall>r. t_pc (snd (exec pl sched (sh, map new_task sl)) ! i) = Finished r \<and>
           t_calls (snd (exec pl sched (sh, map new_task sl)) ! i) = [] \<longrightarrow>
           r = Inr ((sl ! i)\<lparr>status := Some QuotaExceeded, video_id := None\<rparr>)))"
proof (intro conjI impI)
  assume "0 < permits sh"
  then show "t_calls (fst (resume pl Acquired (new_task s) sh)) =
      (if quota_exceeded sh then [] else [Get (query s)])"
    by (simp add: resume_def glue_defs client_defs new_task_def RETRY_ATTEMPTS_def Let_def)
next
  assume i: "i < length sl"
  define ts where "ts = snd (exec pl sched (sh, map new_task sl))"
  have len: "length ts = length sl"
    by (simp add: ts_def exec_length)
  have "list_all calls_inv ts"
    unfolding ts_def by (rule exec_calls_inv) (simp add: new_task_calls_inv)
  with i len have inv: "calls_inv (ts ! i)"
    by (simp add: list_all_length)
  have "map t_song ts = map t_song (map new_task sl)"
    by (simp add: ts_def exec_songs)
  then have "map t_song ts ! i = map t_song (map new_task sl) ! i"
    by simp
  with i len have song: "t_song (ts ! i) = sl ! i"
    by (simp add: new_task_def)
  show "t_song (snd (exec pl sched (sh, map new_task sl)) ! i) = sl ! i"
    using song by (simp add: ts_def)
  show "n_get (snd (exec pl sched (sh, map new_task sl)) ! i) \<le> RETRY_ATTEMPTS"
    using calls_inv_bounds [OF inv] by (simp add: ts_def)
  show "n_post (snd (exec pl sched (sh, map new_task sl)) ! i) \<le> RETRY_ATTEMPTS"
    using calls_inv_bounds [OF inv] by (simp add: ts_def)
  show "n_post (snd (exec pl sched (sh, map new_task sl)) ! i) = 0"
    if "n_get (snd (exec pl sched (sh, map new_task sl)) ! i) = 0"
    using calls_inv_bounds [OF inv] that by (simp add: ts_def)
  show "length (t_calls (snd (exec pl sched (sh, map new_task sl)) ! i)) =
        n_get (snd (exec pl sched (sh, map new_task sl)) ! i) +
        n_post (snd (exec pl sched (sh, map new_task sl)) ! i)"
    by (rule calls_split)
  show "\<forall>r. t_pc (snd (exec pl sched (sh, map new_task sl)) ! i) = Finished r \<and>
           t_calls (snd (exec pl sched (sh, map new_task sl)) ! i) = [] \<longrightarrow>
           r = Inr ((sl ! i)\<lparr>status := Some QuotaExceeded, video_id := None\<rparr>)"
    using calls_inv_none [OF inv] song by (auto simp: ts_def outcome_def)
qed

lemmas run_defs = step_sys_eq resume_def process_song_worker_def search_step_def
  after_search_def add_step_def after_add_def finish_def outcome_def
  async_search_youtube_def search_loop_def search_on_response_def
  async_add_to_playlist_def add_loop_def add_on_response_def new_task_def
  RETRY_ATTEMPTS_def RETRY_DELAY_def Let_def

theorem worker_remote_calls_witness:
  "0 < permits \<lparr>quota_exceeded = True, permits = 10\<rparr> \<and>
   t_calls (fst (resume ''PL'' Acquired
      (new_task \<lparr>song_id = 1, total = 1, query = ''q'', status = None, video_id = None\<rparr>)
      \<lparr>quota_exceeded = True, permits = 10\<rparr>)) = [] \<and>
   (0::nat) < length [\<lparr>song_id = 1, total = 1, query = ''q'', status = None, video_id = None\<rparr>] \<and>
   n_get (snd (exec ''PL'' [(0, Acquired)] (\<lparr>quota_exceeded = True, permits = 10\<rparr>,
      map new_task [\<lparr>song_id = 1, total = 1, query = ''q'', status = None, video_id = None\<rparr>])) ! 0)
     \<le> RETRY_ATTEMPTS"
  using worker_remote_calls [where sh = "\<lparr>quota_exceeded = True, permits = 10\<rparr>"
      and pl = "''PL''" and i = 0 and sched = "[(0, Acquired)]"
      and s = "\<lparr>song_id = 1, total = 1, query = ''q'', status = None, video_id = None\<rparr>"
      and sl = "[\<lparr>song_id = 1, total = 1, query = ''q'', status = None, video_id = None\<rparr>]"]
  by simp

text \<open>
  Claim C3 as stated fails: a search that answers 200 with no items ends the invocation with
  status \<^verbatim>\<open>not_found\<close> after exactly one request.
\<close>

theorem worker_single_call_counterexample:
  "exec ''PL'' [(0, Acquired), (0, Resp (Http 200 []))]
     (\<lparr>quota_exceeded = False, permits = 10\<rparr>,
      [new_task \<lparr>song_id = 1, total = 1, query = ''q'', status = None, video_id = None\<rparr>]) =
   (\<lparr>quota_exceeded = False, permits = 10\<rparr>,
    [\<lparr>t_song = \<lparr>song_id = 1, total = 1, query = ''q'', status = None, video_id = None\<rparr>,
      t_pc = Finished (Inr \<lparr>song_id = 1, total = 1, query = ''q'',
                             status = Some NotFound, video_id = None\<rparr>),
      t_calls = [Get ''q''], t_sleeps = []\<rparr>])"
  by (simp add: run_defs)

lemma add_step_breaker [simp]:
  "quota_exceeded (snd (add_step a vid s t sh)) = quota_exceeded sh"
  by (cases s) (simp_all add: add_step_def after_add_def finish_def)

lemma after_search_breaker [simp]:
  "quota_exceeded (snd (after_search pl v t sh)) = quota_exceeded sh"
  by (simp add: after_search_def finish_def)

lemma search_step_breaker [simp]:
  "quota_exceeded (snd (search_step pl a s t sh)) = quota_exceeded sh"
  by (cases s) (simp_all add: search_step_def finish_def)

lemma process_song_worker_breaker [simp]:
  "quota_exceeded (snd (process_song_worker pl t sh)) = quota_exceeded sh"
  by (simp add: process_song_worker_def finish_def Let_def)

lemma search_on_response_shared:
  "snd (search_on_response a r sh) =
     (if rate_limited r \<and> a = RETRY_ATTEMPTS - 1 then sh\<lparr>quota_exceeded := True\<rparr> else sh)"
  by (cases r) (simp_all add: search_on_response_def split: list.split)

lemma add_on_response_shared:
  "snd (add_on_response a r sh) =
     (if rate_limited r \<and> a = RETRY_ATTEMPTS - 1 then sh\<lparr>quota_exceeded := True\<rparr> else sh)"
  by (cases r) (simp_all add: add_on_response_def)

lemma resume_breaker_mono:
  "quota_exceeded sh \<Longrightarrow> quota_exceeded (snd (resume pl ev t sh))"
  by (cases "t_pc t"; cases ev)
    (simp_all add: resume_def case_prod_beta search_on_response_shared add_on_response_shared)

text \<open>
  Claim C6, as the code has it. The request clients write the flag themselves: the body of
  the retry loop of \<^verbatim>\<open>async_search_youtube\<close> and of \<^verbatim>\<open>async_add_to_playlist\<close> sets
  \<^verbatim>\<open>quota_exceeded\<close> to true exactly when the last attempt is answered 403 or 429, and
  leaves the shared state alone otherwise. The code of the worker around them never changes
  the flag.
\<close>

theorem client_sets_breaker:
  "snd (search_on_response a r sh) =
     (if rate_limited r \<and> a = RETRY_ATTEMPTS - 1 then sh\<lparr>quota_exceeded := True\<rparr> else sh) \<and>
   snd (add_on_response a r sh) =
     (if rate_limited r \<and> a = RETRY_ATTEMPTS - 1 then sh\<lparr>quota_exceeded := True\<rparr> else sh) \<and>
   quota_exceeded (snd (process_song_worker pl t sh)) = quota_exceeded sh \<and>
   quota_exceeded (snd (search_step pl a s t sh)) = quota_exceeded sh \<and>
   quota_exceeded (snd (add_step a vid s' t sh)) = quota_exceeded sh"
  by (simp add: search_on_response_shared add_on_response_shared)

theorem client_sets_breaker_witness:
  "snd (search_on_response 2 (Http 403 []) \<lparr>quota_exceeded = False, permits = 9\<rparr>) =
     \<lparr>quota_exceeded = True, permits = 9\<rparr> \<and>
   snd (add_on_response 1 (Http 403 []) \<lparr>quota_exceeded = False, permits = 9\<rparr>) =
     \<lparr>quota_exceeded = False, permits = 9\<rparr>"
  using client_sets_breaker [where a = 2 and r = "Http 403 []"
      and sh = "\<lparr>quota_exceeded = False, permits = 9\<rparr>"]
    client_sets_breaker [where a = 1 and r = "Http 403 []"
      and sh = "\<lparr>quota_exceeded = False, permits = 9\<rparr>"]
  by (simp add: RETRY_ATTEMPTS_def)

text \<open>
  Claim C6 as stated fails: the third search attempt answered 429 leaves the flag set by the
  client itself.
\<close>

theorem client_sets_breaker_counterexample:
  "snd (search_on_response 2 (Http 429 []) \<lparr>quota_exceeded = False, permits = 9\<rparr>) =
     \<lparr>quota_exceeded = True, permits = 9\<rparr>"
  by (simp add: search_on_response_def RETRY_ATTEMPTS_def)

text \<open>
  Claim C4, as the code has it. When the response to an insert attempt arrives: status 200
  and status 409 give the outcome \<^verbatim>\<open>added\<close>; any other status that is not 403 or 429,
  the other 2xx statuses included, gives \<^verbatim>\<open>failed_to_add\<close> (\<^verbatim>\<open>quota_exceeded\<close> when the
  breaker is tripped by then); 403 or 429 on the last attempt trips the breaker and gives
  \<^verbatim>\<open>quota_exceeded\<close>, and on an earlier attempt starts the backoff sleep.
\<close>

theorem insert_status_classification:
  "t_pc t = Adding a vid \<longrightarrow>
   (st = 200 \<or> st = 409 \<longrightarrow>
      t_pc (fst (resume pl (Resp (Http st b)) t sh)) = Finished (outcome Added (Some vid) t)) \<and>
   (st \<noteq> 200 \<and> st \<noteq> 409 \<and> st \<noteq> 403 \<and> st \<noteq> 429 \<longrightarrow>
      t_pc (fst (resume pl (Resp (Http st b)) t sh)) =
        Finished (outcome (if quota_exceeded sh then QuotaExceeded else FailedToAdd) (Some vid) t)) \<and>
   ((st = 403 \<or> st = 429) \<and> a = RETRY_ATTEMPTS - 1 \<longrightarrow>
      t_pc (fst (resume pl (Resp (Http st b)) t sh)) =
        Finished (outcome QuotaExceeded (Some vid) t) \<and>
      quota_exceeded (snd (resume pl (Resp (Http st b)) t sh))) \<and>
   ((st = 403 \<or> st = 429) \<and> a \<noteq> RETRY_ATTEMPTS - 1 \<longrightarrow>
      t_pc (fst (resume pl (Resp (Http st b)) t sh)) = AddBackoff a vid \<and>
      t_sleeps (fst (resume pl (Resp (Http st b)) t sh)) = t_sleeps t @ [RETRY_DELAY * 2 ^ a] \<and>
      snd (resume pl (Resp (Http st b)) t sh) = sh)"
  by (simp add: resume_def add_on_response_def add_step_def after_add_def finish_def outcome_def)

theorem insert_status_classification_witness:
  "t_pc \<lparr>t_song = \<lparr>song_id = 1, total = 1, query = ''q'', status = None, video_id = None\<rparr>,
         t_pc = Adding 0 ''v1'', t_calls = [Get ''q'', Post ''PL'' ''v1''], t_sleeps = []\<rparr> =
     Adding 0 ''v1'' \<and>
   t_pc (fst (resume ''PL'' (Resp (Http 409 []))
       \<lparr>t_song = \<lparr>song_id = 1, total = 1, query = ''q'', status = None, video_id = None\<rparr>,
         t_pc = Adding 0 ''v1'', t_calls = [Get ''q'', Post ''PL'' ''v1''], t_sleeps = []\<rparr>
       \<lparr>quota_exceeded = False, permits = 9\<rparr>)) =
     Finished (Inr \<lparr>song_id = 1, total = 1, query = ''q'', status = Some Added,
                     video_id = Some ''v1''\<rparr>)"
  using insert_status_classification [where a = 0 and vid = "''v1''" and st = 409 and b = "[]"
      and pl = "''PL''" and sh = "\<lparr>quota_exceeded = False, permits = 9\<rparr>"
      and t = "\<lparr>t_song = \<lparr>song_id = 1, total = 1, query = ''q'', status = None, video_id = None\<rparr>,
         t_pc = Adding 0 ''v1'', t_calls = [Get ''q'', Post ''PL'' ''v1''], t_sleeps = []\<rparr>"]
  by (simp add: outcome_def)

text \<open>
  Claim C4 as stated fails: an insert answered 201, a 2xx status, ends in
  \<^verbatim>\<open>failed_to_add\<close>.
\<close>

theorem insert_201_counterexample:
  "exec ''PL''
     [(0, Acquired),
      (0, Resp (Http 200 [\<lparr>title = ''Song'', videoId = ''v1''\<rparr>])),
      (0, Resp (Http 201 []))]
     (\<lparr>quota_exceeded = False, permits = 10\<rparr>,
      [new_task \<lparr>song_id = 1, total = 1, query = ''q'', status = None, video_id = None\<rparr>]) =
   (\<lparr>quota_exceeded = False, permits = 10\<rparr>,
    [\<lparr>t_song = \<lparr>song_id = 1, total = 1, query = ''q'', status = None, video_id = None\<rparr>,
      t_pc = Finished (Inr \<lparr>song_id = 1, total = 1, query = ''q'',
                             status = Some FailedToAdd, video_id = Some ''v1''\<rparr>),
      t_calls = [Get ''q'', Post ''PL'' ''v1''], t_sleeps = []\<rparr>])"
  by (simp add: run_defs)

lemma resume_unstarted:
  assumes "quota_exceeded sh" and "unstarted t"
  shows "unstarted (fst (resume pl ev t sh))"
proof (cases "t_pc t = Pending")
  case True
  with assms show ?thesis
    by (cases ev)
      (simp_all add: resume_def process_song_worker_def finish_def outcome_def unstarted_def
        Let_def)
next
  case False
  with assms obtain r where "t_pc t = Finished r"
    by (auto simp: unstarted_def)
  with assms show ?thesis by (simp add: resume_def)
qed

lemma searching_no_insert:
  assumes "quota_exceeded sh'" and "n_post t = 0"
  shows "no_insert (fst (search_step pl a (fst (search_on_response a r sh)) t sh'))"
proof -
  from search_on_response_result [of a r sh] show ?thesis
  proof (elim disjE exE conjE)
    fix e assume "fst (search_on_response a r sh) = Raise e"
    with assms show ?thesis
      by (simp add: search_step_def finish_def no_insert_def n_post_def)
  next
    fix v assume "fst (search_on_response a r sh) = Return v"
    with assms show ?thesis
      by (simp add: search_step_def after_search_def finish_def outcome_def no_insert_def
          n_post_def)
  next
    fix w assume "fst (search_on_response a r sh) = Sleep w"
    with assms show ?thesis
      by (simp add: search_step_def no_insert_def n_post_def)
  qed
qed

lemma resume_no_insert:
  assumes "quota_exceeded sh" and "no_insert t"
  shows "no_insert (fst (resume pl ev t sh))"
proof (cases "t_pc t")
  case Pending
  with assms show ?thesis
    by (cases ev)
      (simp_all add: resume_def process_song_worker_def finish_def outcome_def no_insert_def
        n_post_def Let_def)
next
  case (Searching a)
  have "quota_exceeded (snd (search_on_response a r sh))" for r
    using assms(1) by (simp add: search_on_response_shared)
  moreover from assms have "n_post t = 0" by (simp add: no_insert_def)
  ultimately have "no_insert (fst (search_step pl a (fst (search_on_response a r sh)) t
      (snd (search_on_response a r sh))))" for r
    by (rule searching_no_insert)
  with Searching assms show ?thesis
    by (cases ev) (simp_all add: resume_def case_prod_beta)
next
  case (SearchBackoff a)
  with assms show ?thesis
    by (cases ev)
      (simp_all add: resume_def search_step_def search_loop_def after_search_def finish_def
        outcome_def no_insert_def n_post_def)
next
  case (Adding a v)
  with assms show ?thesis by (simp add: no_insert_def)
next
  case (AddBackoff a v)
  with assms show ?thesis by (simp add: no_insert_def)
next
  case (Finished r)
  with assms show ?thesis by (simp add: resume_def)
qed

lemma step_sys_tripped:
  assumes step: "\<And>t ev sh. quota_exceeded sh \<Longrightarrow> P t \<Longrightarrow> P (fst (resume pl ev t sh))"
    and "quota_exceeded (fst st)" and "i < length (snd st)" and "P (snd st ! i)"
  shows "quota_exceeded (fst (step_sys pl ie st)) \<and> P (snd (step_sys pl ie st) ! i)"
proof -
  obtain sh ts where st: "st = (sh, ts)" by (cases st)
  obtain j ev where ie: "ie = (j, ev)" by (cases ie)
  from assms st have "P (fst (resume pl ev (ts ! i) sh))"
    by simp
  with assms(2-4) st ie show ?thesis
    by (simp add: step_sys_eq resume_breaker_mono nth_list_update)
qed

lemma exec_tripped:
  assumes step: "\<And>t ev sh. quota_exceeded sh \<Longrightarrow> P t \<Longrightarrow> P (fst (resume pl ev t sh))"
  shows "quota_exceeded (fst st) \<Longrightarrow> i < length (snd st) \<Longrightarrow> P (snd st ! i) \<Longrightarrow>
    quota_exceeded (fst (exec pl sched st)) \<and> P (snd (exec pl sched st) ! i)"
proof (induction sched arbitrary: st)
  case Nil
  then show ?case by simp
next
  case (Cons ie sched)
  have "quota_exceeded (fst (step_sys pl ie st)) \<and> P (snd (step_sys pl ie st) ! i)"
    using step Cons.prems by (rule step_sys_tripped)
  moreover have "i < length (snd (step_sys pl ie st))"
    using Cons.prems by (simp add: step_sys_length)
  ultimately show ?case
    using Cons.IH [of "step_sys pl ie st"] by simp
qed

lemma tripped_calls_same:
  assumes "quota_exceeded sh"
    and "ev = Woke \<longrightarrow> (\<forall>a. t_pc t \<noteq> SearchBackoff a) \<and> (\<forall>a v. t_pc t \<noteq> AddBackoff a v)"
  shows "t_calls (fst (resume pl ev t sh)) = t_calls t"
proof (cases "t_pc t")
  case Pending
  with assms show ?thesis
    by (cases ev) (simp_all add: resume_def process_song_worker_def finish_def Let_def)
next
  case (Searching a)
  have "t_calls (fst (search_step pl a (fst (search_on_response a r sh')) t
      (snd (search_on_response a r sh)))) = t_calls t" for r sh'
    using search_on_response_result [of a r sh'] assms(1)
    by (auto simp: search_step_def after_search_def finish_def search_on_response_shared)
  with Searching show ?thesis
    by (cases ev) (simp_all add: resume_def case_prod_beta)
next
  case (SearchBackoff a)
  with assms show ?thesis by (cases ev) (simp_all add: resume_def)
next
  case (Adding a v)
  have "t_calls (fst (add_step a v (fst (add_on_response a r sh')) t sh'')) = t_calls t"
    for r sh' sh''
    using add_on_response_result [of a r sh']
    by (auto simp: add_step_def after_add_def finish_def)
  with Adding show ?thesis
    by (cases ev) (simp_all add: resume_def case_prod_beta)
next
  case (AddBackoff a v)
  with assms show ?thesis by (cases ev) (simp_all add: resume_def)
next
  case (Finished r)
  then show ?thesis by (simp add: resume_def)
qed

lemma tripped_calls:
  assumes "quota_exceeded sh" and "t_calls (fst (resume pl ev t sh)) \<noteq> t_calls t"
  shows "ev = Woke \<and> ((\<exists>a. t_pc t = SearchBackoff a) \<or> (\<exists>a v. t_pc t = AddBackoff a v))"
  using assms tripped_calls_same [of sh ev t pl] by blast

text \<open>
  Claim C2, as the code has it. With the breaker tripped: it stays tripped; a worker that
  begins returns \<^verbatim>\<open>quota_exceeded\<close> without a request; a step of a worker issues a request
  only when it wakes from the backoff sleep inside a search or insert call; and, whatever
  the event loop does from then on, a worker that had not begun never issues a request, and
  a worker that was not past its search never issues an insert request and, when it
  finishes, has returned \<^verbatim>\<open>quota_exceeded\<close> or raised.
\<close>

theorem tripped_breaker_stops_new_work:
  "quota_exceeded sh \<longrightarrow>
     (t_pc t = Pending \<and> 0 < permits sh \<longrightarrow>
        t_pc (fst (resume pl Acquired t sh)) = Finished (outcome QuotaExceeded None t) \<and>
        t_calls (fst (resume pl Acquired t sh)) = t_calls t) \<and>
     (t_calls (fst (resume pl ev t sh)) \<noteq> t_calls t \<longrightarrow>
        ev = Woke \<and> ((\<exists>a. t_pc t = SearchBackoff a) \<or> (\<exists>a v. t_pc t = AddBackoff a v))) \<and>
     (i < length ts \<longrightarrow>
        quota_exceeded (fst (exec pl sched (sh, ts))) \<and>
        (unstarted (ts ! i) \<longrightarrow> unstarted (snd (exec pl sched (sh, ts)) ! i)) \<and>
        (no_insert (ts ! i) \<longrightarrow> no_insert (snd (exec pl sched (sh, ts)) ! i)))"
proof (intro impI conjI)
  assume q: "quota_exceeded sh"
  {
    assume "t_pc t = Pending \<and> 0 < permits sh"
    with q show "t_pc (fst (resume pl Acquired t sh)) = Finished (outcome QuotaExceeded None t)"
      and "t_calls (fst (resume pl Acquired t sh)) = t_calls t"
      by (simp_all add: resume_def process_song_worker_def finish_def Let_def)
  }
  {
    assume "t_calls (fst (resume pl ev t sh)) \<noteq> t_calls t"
    with q tripped_calls [of sh pl ev t] show "ev = Woke"
      and "(\<exists>a. t_pc t = SearchBackoff a) \<or> (\<exists>a v. t_pc t = AddBackoff a v)"
      by simp_all
  }
  {
    assume i: "i < length ts"
    from q i show "quota_exceeded (fst (exec pl sched (sh, ts)))"
      using exec_tripped [where P = "\<lambda>t. True" and st = "(sh, ts)" and i = i] by simp
    {
      assume "unstarted (ts ! i)"
      with q i show "unstarted (snd (exec pl sched (sh, ts)) ! i)"
        using exec_tripped [where P = unstarted and st = "(sh, ts)" and i = i]
          resume_unstarted by simp
    }
    {
      assume "no_insert (ts ! i)"
      with q i show "no_insert (snd (exec pl sched (sh, ts)) ! i)"
        using exec_tripped [where P = no_insert and st = "(sh, ts)" and i = i]
          resume_no_insert by simp
    }
  }
qed

theorem tripped_breaker_stops_new_work_witness:
  "quota_exceeded \<lparr>quota_exceeded = True, permits = 10\<rparr> \<and>
   t_pc (new_task \<lparr>song_id = 1, total = 1, query = ''q'', status = None, video_id = None\<rparr>) =
     Pending \<and>
   0 < permits \<lparr>quota_exceeded = True, permits = 10\<rparr> \<and>
   t_pc (fst (resume ''PL'' Acquired
       (new_task \<lparr>song_id = 1, total = 1, query = ''q'', status = None, video_id = None\<rparr>)
       \<lparr>quota_exceeded = True, permits = 10\<rparr>)) =
     Finished (Inr \<lparr>song_id = 1, total = 1, query = ''q'', status = Some QuotaExceeded,
                     video_id = None\<rparr>) \<and>
   (0::nat) < length
     [new_task \<lparr>song_id = 1, total = 1, query = ''q'', status = None, video_id = None\<rparr>] \<and>
   unstarted (new_task \<lparr>song_id = 1, total = 1, query = ''q'', status = None, video_id = None\<rparr>) \<and>
   unstarted (snd (exec ''PL'' [(0, Acquired)]
      (\<lparr>quota_exceeded = True, permits = 10\<rparr>,
       [new_task \<lparr>song_id = 1, total = 1, query = ''q'', status = None, video_id = None\<rparr>])) ! 0)"
  using tripped_breaker_stops_new_work [where sh = "\<lparr>quota_exceeded = True, permits = 10\<rparr>"
      and pl = "''PL''" and i = 0 and sched = "[(0, Acquired)]" and ev = Acquired
      and t = "new_task \<lparr>song_id = 1, total = 1, query = ''q'', status = None, video_id = None\<rparr>"
      and ts = "[new_task \<lparr>song_id = 1, total = 1, query = ''q'', status = None, video_id = None\<rparr>]"]
  by (simp add: unstarted_def new_task_def outcome_def)

text \<open>
  Claim C2 as stated fails. The first worker gets its first 429 while the second worker is
  in its second, longer backoff sleep, so it is still in its own backoff sleep when the
  second worker wakes up, is answered 429 a third time and trips the breaker; on waking up
  it issues its second search request.
\<close>

theorem retry_after_trip_counterexample:
  "quota_exceeded (fst (exec ''PL''
     [(0, Acquired), (1, Acquired), (1, Resp (Http 429 [])), (1, Woke),
      (1, Resp (Http 429 [])), (0, Resp (Http 429 [])), (1, Woke), (1, Resp (Http 429 []))]
     (\<lparr>quota_exceeded = False, permits = 10\<rparr>,
      [new_task \<lparr>song_id = 1, total = 2, query = ''a'', status = None, video_id = None\<rparr>,
       new_task \<lparr>song_id = 2, total = 2, query = ''b'', status = None, video_id = None\<rparr>]))) \<and>
   t_calls (snd (exec ''PL''
     [(0, Acquired), (1, Acquired), (1, Resp (Http 429 [])), (1, Woke),
      (1, Resp (Http 429 [])), (0, Resp (Http 429 [])), (1, Woke), (1, Resp (Http 429 []))]
     (\<lparr>quota_exceeded = False, permits = 10\<rparr>,
      [new_task \<lparr>song_id = 1, total = 2, query = ''a'', status = None, video_id = None\<rparr>,
       new_task \<lparr>song_id = 2, total = 2, query = ''b'', status = None, video_id = None\<rparr>])) ! 0) =
     [Get ''a''] \<and>
   t_calls (snd (exec ''PL''
     [(0, Acquired), (1, Acquired), (1, Resp (Http 429 [])), (1, Woke),
      (1, Resp (Http 429 [])), (0, Resp (Http 429 [])), (1, Woke), (1, Resp (Http 429 [])), (0, Woke)]
     (\<lparr>quota_exceeded = False, permits = 10\<rparr>,
      [new_task \<lparr>song_id = 1, total = 2, query = ''a'', status = None, video_id = None\<rparr>,
       new_task \<lparr>song_id = 2, total = 2, query = ''b'', status = None, video_id = None\<rparr>])) ! 0) =
     [Get ''a'', Get ''a'']"
  by (simp add: run_defs)






section \<open>The retry ladder\<close>








section \<open>Properties of the run\<close>

lemma create_tasks_all: "\<not> quota_exceeded sh \<Longrightarrow> create_tasks sh xs = xs"
  by (induction xs) simp_all

lemma enumerate_from_fst:
  "map fst (enumerate_from n xs) = [n..n + int (length xs) - 1]"
proof (induction xs arbitrary: n)
  case Nil
  then show ?case by simp
next
  case (Cons x xs)
  have "[n..n + int (length (x # xs)) - 1] = n # [n + 1..n + int (length (x # xs)) - 1]"
    by (rule upto_rec1) simp
  also have "n + int (length (x # xs)) - 1 = (n + 1) + int (length xs) - 1"
    by simp
  finally show ?case
    using Cons.IH [of "n + 1"] by simp
qed

lemma enumerate_from_snd: "map snd (enumerate_from n xs) = xs"
  by (induction xs arbitrary: n) simp_all

lemma songs_to_process_ids:
  "map song_id (songs_to_process xs p) = filter (\<lambda>i. i \<notin> p) [1..int (length xs)]"
proof -
  have "map song_id (songs_to_process xs p) =
      map fst (filter (\<lambda>iq. fst iq \<notin> p) (enumerate_from 1 xs))"
    by (simp add: songs_to_process_def case_prod_unfold comp_def)
  also have "\<dots> = filter (\<lambda>i. i \<notin> p) (map fst (enumerate_from 1 xs))"
    by (simp add: filter_map comp_def)
  finally show ?thesis
    by (simp add: enumerate_from_fst)
qed

lemma main_tasks:
  "tasks (main json_load json_dump now (Some pl) fate sched xs pf) =
     songs_to_process xs (fst (load_progress json_load pf))"
proof (cases "xs = []")
  case True
  then show ?thesis by (simp add: main_def songs_to_process_def)
next
  case False
  then show ?thesis
    by (simp add: main_def Let_def create_tasks_all case_prod_beta split: option.split sum.split)
qed

lemma main_workers:
  "map t_song (workers (main json_load json_dump now resolved fate sched xs pf)) =
     tasks (main json_load json_dump now resolved fate sched xs pf)"
proof -
  have "map t_song (map new_task ys) = ys" for ys
    by (induction ys) (simp_all add: new_task_def)
  then show ?thesis
    by (simp add: main_def Let_def case_prod_beta exec_songs split: option.split sum.split)
qed

text \<open>
  Claim C7. Whatever the ledger file holds, the tasks that \<^verbatim>\<open>main\<close> creates are exactly
  the songs whose index, counted from 1, is not in the processed set that
  \<^verbatim>\<open>load_progress\<close> returns, in ascending order of index, each with its own query; all of
  them are handed to the event loop, in that order.
\<close>

theorem dispatch_unprocessed_ascending:
  "map song_id (tasks (main json_load json_dump now (Some pl) fate sched xs pf)) =
     filter (\<lambda>i. i \<notin> fst (load_progress json_load pf)) [1..int (length xs)] \<and>
   sorted_wrt (<) (map song_id (tasks (main json_load json_dump now (Some pl) fate sched xs pf))) \<and>
   map t_song (workers (main json_load json_dump now (Some pl) fate sched xs pf)) =
     tasks (main json_load json_dump now (Some pl) fate sched xs pf) \<and>
   map query (tasks (main json_load json_dump now (Some pl) fate sched xs pf)) =
     map snd (filter (\<lambda>iq. fst iq \<notin> fst (load_progress json_load pf)) (enumerate_from 1 xs))"
proof (intro conjI)
  show ids: "map song_id (tasks (main json_load json_dump now (Some pl) fate sched xs pf)) =
     filter (\<lambda>i. i \<notin> fst (load_progress json_load pf)) [1..int (length xs)]"
    by (simp add: main_tasks songs_to_process_ids)
  have "sorted_wrt (<) [1..int (length xs)]"
    by (simp add: sorted_wrt_upto)
  then show "sorted_wrt (<)
      (map song_id (tasks (main json_load json_dump now (Some pl) fate sched xs pf)))"
    unfolding ids by (rule sorted_wrt_filter)
  show "map t_song (workers (main json_load json_dump now (Some pl) fate sched xs pf)) =
     tasks (main json_load json_dump now (Some pl) fate sched xs pf)"
    by (rule main_workers)
  show "map query (tasks (main json_load json_dump now (Some pl) fate sched xs pf)) =
     map snd (filter (\<lambda>iq. fst iq \<notin> fst (load_progress json_load pf)) (enumerate_from 1 xs))"
    by (simp add: main_tasks songs_to_process_def case_prod_unfold comp_def)
qed

text \<open>
  Claim C10. When the source list is empty, or every index from 1 to its length is in the
  processed set of the ledger, \<^verbatim>\<open>main\<close> returns without creating a task, without
  starting a worker and without calling \<^verbatim>\<open>save_progress\<close>, and the ledger file is what
  it was.
\<close>

theorem nothing_to_do_leaves_ledger:
  "xs = [] \<or> (\<forall>i \<in> {1..int (length xs)}. i \<in> fst (load_progress json_load pf)) \<longrightarrow>
     tasks (main json_load json_dump now resolved fate sched xs pf) = [] \<and>
     workers (main json_load json_dump now resolved fate sched xs pf) = [] \<and>
     saves (main json_load json_dump now resolved fate sched xs pf) = 0 \<and>
     ledger_file (main json_load json_dump now resolved fate sched xs pf) = pf"
proof
  assume "xs = [] \<or> (\<forall>i \<in> {1..int (length xs)}. i \<in> fst (load_progress json_load pf))"
  then have "xs = [] \<or> songs_to_process xs (fst (load_progress json_load pf)) = []"
  proof
    assume "xs = []" then show ?thesis by simp
  next
    assume all: "\<forall>i \<in> {1..int (length xs)}. i \<in> fst (load_progress json_load pf)"
    have "map song_id (songs_to_process xs (fst (load_progress json_load pf))) = []"
      unfolding songs_to_process_ids using all by (simp add: filter_empty_conv)
    then show ?thesis by simp
  qed
  then show "tasks (main json_load json_dump now resolved fate sched xs pf) = [] \<and>
     workers (main json_load json_dump now resolved fate sched xs pf) = [] \<and>
     saves (main json_load json_dump now resolved fate sched xs pf) = 0 \<and>
     ledger_file (main json_load json_dump now resolved fate sched xs pf) = pf"
    by (auto simp: main_def Let_def case_prod_beta split: option.split sum.split)
qed

text \<open>With \<open>{1, 2}\<close> processed out of five songs, the tasks are those of 3, 4 and 5.\<close>

theorem dispatch_unprocessed_ascending_witness:
  "fst (load_progress
      (\<lambda>text. Some \<lparr>last_updated = None, processed_indices = Some [1, 2], songs = None\<rparr>)
      (Some ''L'')) = {1, 2} \<and>
   map song_id (tasks (main
      (\<lambda>text. Some \<lparr>last_updated = None, processed_indices = Some [1, 2], songs = None\<rparr>)
      (\<lambda>d. ''L'') ''now'' (Some ''PL'') Completes []
      [''a'', ''b'', ''c'', ''d'', ''e''] (Some ''L''))) = [3, 4, 5]"
  using dispatch_unprocessed_ascending [where xs = "[''a'', ''b'', ''c'', ''d'', ''e'']"
      and json_load = "\<lambda>text. Some \<lparr>last_updated = None, processed_indices = Some [1, 2],
        songs = None\<rparr>"
      and json_dump = "\<lambda>d. ''L''" and now = "''now''" and pl = "''PL''" and fate = Completes
      and sched = "[]" and pf = "Some ''L''"]
    upto_rec1 [of 1 5] upto_rec1 [of 2 5] upto_rec1 [of 3 5] upto_rec1 [of 4 5]
  by (simp add: load_progress_def)

theorem nothing_to_do_leaves_ledger_witness:
  "fst (load_progress
      (\<lambda>text. Some \<lparr>last_updated = None, processed_indices = Some [1, 2], songs = None\<rparr>)
      (Some ''L'')) = {1, 2} \<and>
   saves (main
      (\<lambda>text. Some \<lparr>last_updated = None, processed_indices = Some [1, 2], songs = None\<rparr>)
      (\<lambda>d. ''NEW'') ''now'' (Some ''PL'') Completes [] [''a'', ''b''] (Some ''L'')) = 0 \<and>
   ledger_file (main
      (\<lambda>text. Some \<lparr>last_updated = None, processed_indices = Some [1, 2], songs = None\<rparr>)
      (\<lambda>d. ''NEW'') ''now'' (Some ''PL'') Completes [] [''a'', ''b''] (Some ''L'')) = Some ''L''"
proof -
  have all: "\<forall>i \<in> {1..int (length [''a'', ''b''])}. i \<in> fst (load_progress
      (\<lambda>text. Some \<lparr>last_updated = None, processed_indices = Some [1, 2], songs = None\<rparr>)
      (Some ''L''))"
    by (auto simp: load_progress_def)
  have load: "fst (load_progress
      (\<lambda>text. Some \<lparr>last_updated = None, processed_indices = Some [1, 2], songs = None\<rparr>)
      (Some ''L'')) = {1, 2}"
    by (simp add: load_progress_def)
  show ?thesis
    using all load nothing_to_do_leaves_ledger [where xs = "[''a'', ''b'']"
      and json_load = "\<lambda>text. Some \<lparr>last_updated = None, processed_indices = Some [1, 2],
        songs = None\<rparr>"
      and json_dump = "\<lambda>d. ''NEW''" and now = "''now''" and resolved = "Some ''PL''"
      and fate = Completes and sched = "[]" and pf = "Some ''L''"]
    by blast
qed

section \<open>Properties of the ledger\<close>

lemma merged_simps [simp]: "merged (Inl led) = led" "merged (Inr led) = led"
  by (simp_all add: merged_def)

lemma merge_results_inv: "ledger_inv led \<Longrightarrow> ledger_inv (merged (merge_results rs led))"
  by (induction rs led rule: merge_results.induct) (simp_all add: ledger_inv_def)


lemma merge_results_finite:
  "finite (fst led) \<Longrightarrow> finite (fst (merged (merge_results rs led)))"
  by (induction rs led rule: merge_results.induct) simp_all


lemma load_progress_finite: "finite (fst (load_progress json_load pf))"
proof (cases pf)
  case None
  then show ?thesis by (simp add: load_progress_def)
next
  case (Some tx)
  show ?thesis
  proof (cases "json_load tx")
    case None
    with Some show ?thesis by (simp add: load_progress_def)
  next
    case (Some a)
    with \<open>pf = Some tx\<close> show ?thesis
      by (cases "processed_indices a") (simp_all add: load_progress_def)
  qed
qed

lemma load_progress_absent: "load_progress json_load None = ({}, Map.empty)"
  by (simp add: load_progress_def)

lemma load_progress_unparsable:
  "json_load tx = None \<Longrightarrow> load_progress json_load (Some tx) = ({}, Map.empty)"
  by (simp add: load_progress_def)

lemma load_progress_parsable:
  "json_load tx = Some d \<Longrightarrow>
     load_progress json_load (Some tx) =
       (set (case processed_indices d of None \<Rightarrow> [] | Some ys \<Rightarrow> ys),
        case songs d of None \<Rightarrow> Map.empty | Some m \<Rightarrow> m)"
  by (simp add: load_progress_def)

lemma ledger_inv_empty: "ledger_inv ({}, Map.empty)"
  by (simp add: ledger_inv_def)

lemma save_then_load:
  assumes "finite (fst led)" and "reads_back json_load json_dump now led"
  shows "load_progress json_load (save_progress json_dump now Completes (fst led) (snd led) pf)
    = led"
  using assms by (simp add: load_progress_def save_progress_def reads_back_def)

text \<open>The shapes a run can have.\<close>

lemma main_cases:
  obtains
    (idle) "main json_load json_dump now resolved fate sched xs pf =
      \<lparr>ledger_file = pf, saves = 0, tasks = [], workers = [], breaker = False,
        ledger = ({}, Map.empty)\<rparr>"
  | (nothing) "main json_load json_dump now resolved fate sched xs pf =
      \<lparr>ledger_file = pf, saves = 0, tasks = [], workers = [], breaker = False,
        ledger = load_progress json_load pf\<rparr>"
  | (waiting) ys ts b where "main json_load json_dump now resolved fate sched xs pf =
      \<lparr>ledger_file = pf, saves = 0, tasks = ys, workers = ts, breaker = b,
        ledger = load_progress json_load pf\<rparr>"
  | (raised) ys ts b rs led where "main json_load json_dump now resolved fate sched xs pf =
      \<lparr>ledger_file = pf, saves = 0, tasks = ys, workers = ts, breaker = b, ledger = led\<rparr>"
      "collect ts = Some rs" "merge_results rs (load_progress json_load pf) = Inl led"
  | (saved) ys ts b rs led where "main json_load json_dump now resolved fate sched xs pf =
      \<lparr>ledger_file = save_progress json_dump now fate (fst led) (snd led) pf, saves = 1,
        tasks = ys, workers = ts, breaker = b, ledger = led\<rparr>"
      "collect ts = Some rs" "merge_results rs (load_progress json_load pf) = Inr led"
proof -
  define sh where "sh = \<lparr>quota_exceeded = False, permits = CONCURRENT_REQUESTS\<rparr>"
  define ys where "ys = create_tasks sh (songs_to_process xs (fst (load_progress json_load pf)))"
  show ?thesis
  proof (cases "xs = [] \<or> resolved = None")
    case True
    then have "main json_load json_dump now resolved fate sched xs pf =
      \<lparr>ledger_file = pf, saves = 0, tasks = [], workers = [], breaker = False,
        ledger = ({}, Map.empty)\<rparr>"
      by (auto simp: main_def Let_def)
    then show ?thesis by (rule idle)
  next
    case False
    then obtain pl where pl: "resolved = Some pl" and xs: "xs \<noteq> []" by auto
    show ?thesis
    proof (cases "songs_to_process xs (fst (load_progress json_load pf)) = [] \<or> ys = []")
      case True
      with pl xs have "main json_load json_dump now resolved fate sched xs pf =
        \<lparr>ledger_file = pf, saves = 0, tasks = [], workers = [], breaker = False,
          ledger = load_progress json_load pf\<rparr>"
        by (auto simp: main_def Let_def case_prod_beta sh_def ys_def)
      then show ?thesis by (rule nothing)
    next
      case False
      then have tp: "songs_to_process xs (fst (load_progress json_load pf)) \<noteq> []"
        and ys: "ys \<noteq> []" by auto
      show ?thesis
      proof (cases "gather pl sched sh ys")
        case None
        with pl xs tp ys have "main json_load json_dump now resolved fate sched xs pf =
          \<lparr>ledger_file = pf, saves = 0, tasks = ys,
            workers = snd (exec pl sched (sh, map new_task ys)),
            breaker = quota_exceeded (fst (exec pl sched (sh, map new_task ys))),
            ledger = load_progress json_load pf\<rparr>"
          by (simp add: main_def Let_def case_prod_beta sh_def ys_def)
        then show ?thesis by (rule waiting)
      next
        case (Some a)
        obtain rs sh' where a: "a = (rs, sh')" by (cases a)
        from Some a have col: "collect (snd (exec pl sched (sh, map new_task ys))) = Some rs"
          by (simp add: gather_def case_prod_beta split: option.splits)
        show ?thesis
        proof (cases "merge_results rs (load_progress json_load pf)")
          case (Inl led)
          with Some a pl xs tp ys
          have "main json_load json_dump now resolved fate sched xs pf =
            \<lparr>ledger_file = pf, saves = 0, tasks = ys,
              workers = snd (exec pl sched (sh, map new_task ys)),
              breaker = quota_exceeded sh', ledger = led\<rparr>"
            by (simp add: main_def Let_def case_prod_beta sh_def ys_def)
          then show ?thesis using col Inl by (rule raised)
        next
          case (Inr led)
          with Some a pl xs tp ys
          have "main json_load json_dump now resolved fate sched xs pf =
            \<lparr>ledger_file = save_progress json_dump now fate (fst led) (snd led) pf,
              saves = 1, tasks = ys,
              workers = snd (exec pl sched (sh, map new_task ys)),
              breaker = quota_exceeded sh', ledger = led\<rparr>"
            by (simp add: main_def Let_def case_prod_beta sh_def ys_def)
          then show ?thesis using col Inr by (rule saved)
        qed
      qed
    qed
  qed
qed

lemma main_ledger_inv:
  assumes "ledger_inv (load_progress json_load pf)"
  shows "ledger_inv (ledger (main json_load json_dump now resolved fate sched xs pf))"
proof (cases rule: main_cases [of json_load json_dump now resolved fate sched xs pf])
  case idle
  then show ?thesis by (simp add: ledger_inv_empty)
next
  case nothing
  with assms show ?thesis by simp
next
  case (waiting ys ts b)
  with assms show ?thesis by simp
next
  case (raised ys ts b rs led)
  with merge_results_inv [OF assms, of rs] show ?thesis by simp
next
  case (saved ys ts b rs led)
  with merge_results_inv [OF assms, of rs] show ?thesis by simp
qed

lemma main_ledger_finite:
  "finite (fst (ledger (main json_load json_dump now resolved fate sched xs pf)))"
proof (cases rule: main_cases [of json_load json_dump now resolved fate sched xs pf])
  case idle
  then show ?thesis by simp
next
  case nothing
  then show ?thesis by (simp add: load_progress_finite)
next
  case (waiting ys ts b)
  then show ?thesis by (simp add: load_progress_finite)
next
  case (raised ys ts b rs led)
  have "finite (fst (merged (merge_results rs (load_progress json_load pf))))"
    by (rule merge_results_finite) (rule load_progress_finite)
  with raised show ?thesis by simp
next
  case (saved ys ts b rs led)
  have "finite (fst (merged (merge_results rs (load_progress json_load pf))))"
    by (rule merge_results_finite) (rule load_progress_finite)
  with saved show ?thesis by simp
qed

lemma main_saved:
  assumes "saves (main json_load json_dump now resolved fate sched xs pf) = 1"
  shows "ledger_file (main json_load json_dump now resolved fate sched xs pf) =
    save_progress json_dump now fate
      (fst (ledger (main json_load json_dump now resolved fate sched xs pf)))
      (snd (ledger (main json_load json_dump now resolved fate sched xs pf))) pf"
  using assms
  by (cases rule: main_cases [of json_load json_dump now resolved fate sched xs pf]) simp_all

lemma main_unsaved:
  assumes "saves (main json_load json_dump now resolved fate sched xs pf) \<noteq> 1"
  shows "ledger_file (main json_load json_dump now resolved fate sched xs pf) = pf"
  using assms
  by (cases rule: main_cases [of json_load json_dump now resolved fate sched xs pf]) simp_all

















text \<open>What a run leaves in the file, when its save does not lose the ledger.\<close>

lemma run_file_kept:
  assumes "save_kept json_load json_dump i (run_main json_load json_dump i pf)"
  shows "ledger_file (run_main json_load json_dump i pf) = pf \<or>
    (saves (run_main json_load json_dump i pf) = 1 \<and>
     load_progress json_load (ledger_file (run_main json_load json_dump i pf)) =
       ledger (run_main json_load json_dump i pf))"
proof (cases "saves (run_main json_load json_dump i pf) = 1")
  case False
  then show ?thesis
    unfolding run_main_def by (simp add: main_unsaved)
next
  case True
  then have lf: "ledger_file (run_main json_load json_dump i pf) =
      save_progress json_dump (in_now i) (in_fate i)
        (fst (ledger (run_main json_load json_dump i pf)))
        (snd (ledger (run_main json_load json_dump i pf))) pf"
    unfolding run_main_def by (rule main_saved)
  from assms True consider "in_fate i = OpenFails"
    | "in_fate i = Completes"
      "reads_back json_load json_dump (in_now i) (ledger (run_main json_load json_dump i pf))"
    by (auto simp: save_kept_def)
  then show ?thesis
  proof cases
    case 1
    with lf show ?thesis by (simp add: save_progress_def)
  next
    case 2
    have "finite (fst (ledger (run_main json_load json_dump i pf)))"
      unfolding run_main_def by (rule main_ledger_finite)
    from save_then_load [OF this 2(2), of pf] lf 2(1) True show ?thesis
      by simp
  qed
qed


lemma run_keeps_inv:
  assumes "save_kept json_load json_dump i (run_main json_load json_dump i pf)"
    and "ledger_inv (load_progress json_load pf)"
  shows "ledger_inv (load_progress json_load (ledger_file (run_main json_load json_dump i pf)))"
  using run_file_kept [OF assms(1)]
proof
  assume "ledger_file (run_main json_load json_dump i pf) = pf"
  with assms(2) show ?thesis by simp
next
  assume saved: "saves (run_main json_load json_dump i pf) = 1 \<and>
     load_progress json_load (ledger_file (run_main json_load json_dump i pf)) =
       ledger (run_main json_load json_dump i pf)"
  have "ledger_inv (ledger (run_main json_load json_dump i pf))"
    unfolding run_main_def using assms(2) by (rule main_ledger_inv)
  with saved show ?thesis by simp
qed


lemma later_keeps_inv:
  "saves_kept json_load json_dump later pf \<Longrightarrow> ledger_inv (load_progress json_load pf) \<Longrightarrow>
     ledger_inv (load_progress json_load (later_file json_load json_dump later pf))"
proof (induction later arbitrary: pf)
  case Nil
  then show ?case by simp
next
  case (Cons i later)
  from Cons.prems have kept: "save_kept json_load json_dump i (run_main json_load json_dump i pf)"
    and rest: "saves_kept json_load json_dump later
      (ledger_file (run_main json_load json_dump i pf))"
    by simp_all
  from kept Cons.prems(2)
  have "ledger_inv (load_progress json_load (ledger_file (run_main json_load json_dump i pf)))"
    by (rule run_keeps_inv)
  from Cons.IH [OF rest this] show ?case by simp
qed

text \<open>
  Claim C8, as the code has it. The ledger invariant (the processed indices, written as
  strings, are the keys of the songs) holds for what \<^verbatim>\<open>load_progress\<close> returns when
  there is no file or the file does not parse. For a file that parses, \<^verbatim>\<open>load_progress\<close>
  returns what the file holds, unchecked, with an empty list and an empty dictionary for
  missing keys. The merge of the results preserves the invariant, whether the loop ends by
  itself or by raising, so the ledger a run ends with has it whenever the ledger it loaded
  has it; a run that saves hands exactly that ledger to \<^verbatim>\<open>save_progress\<close>; when the save
  completes and reads back, \<^verbatim>\<open>load_progress\<close> returns the saved ledger; and over any
  sequence of runs whose saves do not lose the ledger, a ledger file that loads with the
  invariant still loads with it afterwards.
\<close>

theorem ledger_invariant:
  "ledger_inv (load_progress json_load None) \<and>
   (json_load tx = None \<longrightarrow> ledger_inv (load_progress json_load (Some tx))) \<and>
   (json_load tx = Some d \<longrightarrow>
      load_progress json_load (Some tx) =
        (set (case processed_indices d of None \<Rightarrow> [] | Some ys \<Rightarrow> ys),
         case songs d of None \<Rightarrow> Map.empty | Some m \<Rightarrow> m)) \<and>
   (ledger_inv led \<longrightarrow> ledger_inv (merged (merge_results rs led))) \<and>
   (ledger_inv (load_progress json_load pf) \<longrightarrow>
      ledger_inv (ledger (main json_load json_dump now resolved fate sched xs pf))) \<and>
   (saves (main json_load json_dump now resolved fate sched xs pf) = 1 \<longrightarrow>
      ledger_file (main json_load json_dump now resolved fate sched xs pf) =
        save_progress json_dump now fate
          (fst (ledger (main json_load json_dump now resolved fate sched xs pf)))
          (snd (ledger (main json_load json_dump now resolved fate sched xs pf))) pf) \<and>
   (finite (fst led') \<and> reads_back json_load json_dump now led' \<longrightarrow>
      load_progress json_load
        (save_progress json_dump now Completes (fst led') (snd led') pf) = led') \<and>
   (ledger_inv (load_progress json_load pf) \<and> saves_kept json_load json_dump later pf \<longrightarrow>
      ledger_inv (load_progress json_load (later_file json_load json_dump later pf)))"
  using main_ledger_inv [of json_load pf json_dump now resolved fate sched xs]
    main_saved [of json_load json_dump now resolved fate sched xs pf]
    save_then_load [of led' json_load json_dump now pf]
    later_keeps_inv [of json_load json_dump later pf]
  by (simp add: load_progress_absent load_progress_unparsable load_progress_parsable
      ledger_inv_empty merge_results_inv)

text \<open>A run over one song that is not found, saved and loaded again.\<close>

lemma str_digits: "str 1 = ''1''" "str 2 = ''2''" "str 3 = ''3''"
  by code_simp+

lemma example_run:
  "main (\<lambda>t. if t = ''L1''
          then Some \<lparr>last_updated = Some ''now'', processed_indices = Some [1],
                 songs = Some [''1'' \<mapsto> \<lparr>song_id = 1, total = 1, query = ''a'',
                   status = Some NotFound, video_id = None\<rparr>]\<rparr>
          else None)
     (\<lambda>d. ''L1'') ''now'' (Some ''PL'') Completes
     [(0, Acquired), (0, Resp (Http 200 []))] [''a''] None =
   \<lparr>ledger_file = Some ''L1'', saves = 1,
     tasks = [\<lparr>song_id = 1, total = 1, query = ''a'', status = None, video_id = None\<rparr>],
     workers =
       [\<lparr>t_song = \<lparr>song_id = 1, total = 1, query = ''a'', status = None, video_id = None\<rparr>,
         t_pc = Finished (Inr \<lparr>song_id = 1, total = 1, query = ''a'',
                                status = Some NotFound, video_id = None\<rparr>),
         t_calls = [Get ''a''], t_sleeps = []\<rparr>],
     breaker = False,
     ledger = ({1}, [''1'' \<mapsto> \<lparr>song_id = 1, total = 1, query = ''a'',
                      status = Some NotFound, video_id = None\<rparr>])\<rparr>"
  by (simp add: main_def load_progress_def songs_to_process_def gather_def save_progress_def
      ledger_text_def CONCURRENT_REQUESTS_def run_defs str_digits)

lemma example_reads_back:
  "reads_back (\<lambda>t. if t = ''L1''
          then Some \<lparr>last_updated = Some ''now'', processed_indices = Some [1],
                 songs = Some [''1'' \<mapsto> \<lparr>song_id = 1, total = 1, query = ''a'',
                   status = Some NotFound, video_id = None\<rparr>]\<rparr>
          else None) (\<lambda>d. ''L1'') ''now''
     ({1}, [''1'' \<mapsto> \<lparr>song_id = 1, total = 1, query = ''a'', status = Some NotFound, video_id = None\<rparr>])"
  by (simp add: reads_back_def ledger_text_def)

theorem ledger_invariant_witness:
  "saves (main (\<lambda>t. if t = ''L1''
          then Some \<lparr>last_updated = Some ''now'', processed_indices = Some [1],
                 songs = Some [''1'' \<mapsto> \<lparr>song_id = 1, total = 1, query = ''a'',
                   status = Some NotFound, video_id = None\<rparr>]\<rparr>
          else None)
     (\<lambda>d. ''L1'') ''now'' (Some ''PL'') Completes
     [(0, Acquired), (0, Resp (Http 200 []))] [''a''] None) = 1 \<and>
   ledger_inv ({1}, [''1'' \<mapsto> \<lparr>song_id = 1, total = 1, query = ''a'', status = Some NotFound, video_id = None\<rparr>]) \<and>
   reads_back (\<lambda>t. if t = ''L1''
          then Some \<lparr>last_updated = Some ''now'', processed_indices = Some [1],
                 songs = Some [''1'' \<mapsto> \<lparr>song_id = 1, total = 1, query = ''a'',
                   status = Some NotFound, video_id = None\<rparr>]\<rparr>
          else None) (\<lambda>d. ''L1'') ''now''
     ({1}, [''1'' \<mapsto> \<lparr>song_id = 1, total = 1, query = ''a'', status = Some NotFound, video_id = None\<rparr>]) \<and>
   load_progress (\<lambda>t. if t = ''L1''
          then Some \<lparr>last_updated = Some ''now'', processed_indices = Some [1],
                 songs = Some [''1'' \<mapsto> \<lparr>song_id = 1, total = 1, query = ''a'',
                   status = Some NotFound, video_id = None\<rparr>]\<rparr>
          else None) (Some ''L1'') =
     ({1}, [''1'' \<mapsto> \<lparr>song_id = 1, total = 1, query = ''a'', status = Some NotFound, video_id = None\<rparr>]) \<and>
   saves_kept (\<lambda>t. if t = ''L1''
          then Some \<lparr>last_updated = Some ''now'', processed_indices = Some [1],
                 songs = Some [''1'' \<mapsto> \<lparr>song_id = 1, total = 1, query = ''a'',
                   status = Some NotFound, video_id = None\<rparr>]\<rparr>
          else None) (\<lambda>d. ''L1'')
     [\<lparr>in_now = ''later'', in_resolved = Some ''PL'', in_fate = OpenFails,
        in_sched = [(0, Acquired), (0, Resp (Http 200 []))], in_songs = [''a'', ''b'']\<rparr>] (Some ''L1'') \<and>
   ledger_inv (load_progress (\<lambda>t. if t = ''L1''
          then Some \<lparr>last_updated = Some ''now'', processed_indices = Some [1],
                 songs = Some [''1'' \<mapsto> \<lparr>song_id = 1, total = 1, query = ''a'',
                   status = Some NotFound, video_id = None\<rparr>]\<rparr>
          else None)
     (later_file (\<lambda>t. if t = ''L1''
          then Some \<lparr>last_updated = Some ''now'', processed_indices = Some [1],
                 songs = Some [''1'' \<mapsto> \<lparr>song_id = 1, total = 1, query = ''a'',
                   status = Some NotFound, video_id = None\<rparr>]\<rparr>
          else None) (\<lambda>d. ''L1'')
        [\<lparr>in_now = ''later'', in_resolved = Some ''PL'', in_fate = OpenFails,
        in_sched = [(0, Acquired), (0, Resp (Http 200 []))], in_songs = [''a'', ''b'']\<rparr>] (Some ''L1''))) \<and>
   ledger_inv (load_progress (\<lambda>t. if t = ''L1''
          then Some \<lparr>last_updated = Some ''now'', processed_indices = Some [1],
                 songs = Some [''1'' \<mapsto> \<lparr>song_id = 1, total = 1, query = ''a'',
                   status = Some NotFound, video_id = None\<rparr>]\<rparr>
          else None) (Some ''half''))"
proof -
  have inv: "ledger_inv ({1}, [''1'' \<mapsto> \<lparr>song_id = 1, total = 1, query = ''a'', status = Some NotFound, video_id = None\<rparr>])"
    using ledger_invariant [where json_load = "\<lambda>t. if t = ''L1''
          then Some \<lparr>last_updated = Some ''now'', processed_indices = Some [1],
                 songs = Some [''1'' \<mapsto> \<lparr>song_id = 1, total = 1, query = ''a'',
                   status = Some NotFound, video_id = None\<rparr>]\<rparr>
          else None"
      and json_dump = "\<lambda>d. ''L1''" and now = "''now''" and resolved = "Some ''PL''"
      and fate = Completes and sched = "[(0, Acquired), (0, Resp (Http 200 []))]"
      and xs = "[''a'']" and pf = None]
    by (simp add: example_run)
  have load: "load_progress (\<lambda>t. if t = ''L1''
          then Some \<lparr>last_updated = Some ''now'', processed_indices = Some [1],
                 songs = Some [''1'' \<mapsto> \<lparr>song_id = 1, total = 1, query = ''a'',
                   status = Some NotFound, video_id = None\<rparr>]\<rparr>
          else None) (Some ''L1'') =
     ({1}, [''1'' \<mapsto> \<lparr>song_id = 1, total = 1, query = ''a'', status = Some NotFound, video_id = None\<rparr>])"
    by (simp add: load_progress_def)
  have kept: "saves_kept (\<lambda>t. if t = ''L1''
          then Some \<lparr>last_updated = Some ''now'', processed_indices = Some [1],
                 songs = Some [''1'' \<mapsto> \<lparr>song_id = 1, total = 1, query = ''a'',
                   status = Some NotFound, video_id = None\<rparr>]\<rparr>
          else None) (\<lambda>d. ''L1'')
     [\<lparr>in_now = ''later'', in_resolved = Some ''PL'', in_fate = OpenFails,
        in_sched = [(0, Acquired), (0, Resp (Http 200 []))], in_songs = [''a'', ''b'']\<rparr>] (Some ''L1'')"
    by (simp add: save_kept_def)
  from ledger_invariant [where json_load = "\<lambda>t. if t = ''L1''
          then Some \<lparr>last_updated = Some ''now'', processed_indices = Some [1],
                 songs = Some [''1'' \<mapsto> \<lparr>song_id = 1, total = 1, query = ''a'',
                   status = Some NotFound, video_id = None\<rparr>]\<rparr>
          else None"
      and json_dump = "\<lambda>d. ''L1''" and pf = "Some ''L1''" and tx = "''half''"
      and led = "({}, Map.empty)" and rs = "[]" and now = "''now''" and resolved = None
      and fate = Completes and sched = "[]" and xs = "[]"
      and d = "\<lparr>last_updated = None, processed_indices = None, songs = None\<rparr>"
      and led' = "({1}, [''1'' \<mapsto> \<lparr>song_id = 1, total = 1, query = ''a'',
        status = Some NotFound, video_id = None\<rparr>])"
      and later = "[\<lparr>in_now = ''later'', in_resolved = Some ''PL'', in_fate = OpenFails,
        in_sched = [(0, Acquired), (0, Resp (Http 200 []))], in_songs = [''a'', ''b'']\<rparr>]"]
  show ?thesis
    using inv load kept example_reads_back by (simp add: example_run)
qed

text \<open>
  Claim C8 as stated fails: a ledger file that holds only the processed indices 1 and 2
  loads as a ledger without the invariant, and the run over three songs that starts from
  it saves a ledger that is still without it.
\<close>

theorem unvalidated_load_counterexample:
  "\<not> ledger_inv (load_progress (\<lambda>t. Some \<lparr>last_updated = None, processed_indices = Some [1, 2], songs = None\<rparr>) (Some ''F'')) \<and>
   saves (main (\<lambda>t. Some \<lparr>last_updated = None, processed_indices = Some [1, 2], songs = None\<rparr>) (\<lambda>d. ''N'') ''now'' (Some ''PL'') Completes
     [(0, Acquired), (0, Resp (Http 200 []))] [''a'', ''b'', ''c''] (Some ''F'')) = 1 \<and>
   ledger (main (\<lambda>t. Some \<lparr>last_updated = None, processed_indices = Some [1, 2], songs = None\<rparr>) (\<lambda>d. ''N'') ''now'' (Some ''PL'') Completes
     [(0, Acquired), (0, Resp (Http 200 []))] [''a'', ''b'', ''c''] (Some ''F'')) =
     ({1, 2, 3}, [''3'' \<mapsto> \<lparr>song_id = 3, total = 3, query = ''c'', status = Some NotFound,
                     video_id = None\<rparr>]) \<and>
   \<not> ledger_inv ({1, 2, 3}, [''3'' \<mapsto> \<lparr>song_id = 3, total = 3, query = ''c'',
                     status = Some NotFound, video_id = None\<rparr>])"
proof -
  have "str ` {1, 2, 3} \<noteq> {''3''}"
    by (simp add: str_digits)
  then show ?thesis
    by (auto simp: main_def load_progress_def songs_to_process_def gather_def
        save_progress_def ledger_text_def CONCURRENT_REQUESTS_def run_defs str_digits
        ledger_inv_def)
qed




text \<open>
  Claim C1, as the code has it. \<^verbatim>\<open>save_progress\<close> writes over the ledger file in place.
  A save that completes leaves the text of the new ledger, whatever the file held before;
  when the file cannot be opened it stays as it was; when the writing stops after \<open>n\<close>
  characters the file holds the first \<open>n\<close> characters of the new text and nothing of the
  old one. Where that beginning does not parse, \<^verbatim>\<open>load_progress\<close> returns the empty
  ledger.
\<close>

theorem save_overwrites_in_place:
  "save_progress json_dump now Completes p s pf = Some (ledger_text json_dump now p s) \<and>
   save_progress json_dump now Completes p s pf = save_progress json_dump now Completes p s pf' \<and>
   save_progress json_dump now OpenFails p s pf = pf \<and>
   save_progress json_dump now (Stops n) p s pf =
     Some (take n (ledger_text json_dump now p s)) \<and>
   (json_load (take n (ledger_text json_dump now p s)) = None \<longrightarrow>
      load_progress json_load (save_progress json_dump now (Stops n) p s pf) =
        ({}, Map.empty))"
  by (simp add: save_progress_def load_progress_def)

theorem save_overwrites_in_place_witness:
  "(\<lambda>t. if t = ''{new}'' then Some \<lparr>last_updated = None, processed_indices = Some [1],
            songs = None\<rparr> else None)
     (take 2 (ledger_text (\<lambda>d. ''{new}'') ''now'' {1} Map.empty)) = None \<and>
   load_progress
     (\<lambda>t. if t = ''{new}'' then Some \<lparr>last_updated = None, processed_indices = Some [1],
            songs = None\<rparr> else None)
     (save_progress (\<lambda>d. ''{new}'') ''now'' (Stops 2) {1} Map.empty (Some ''{old}'')) =
     ({}, Map.empty)"
  using save_overwrites_in_place [where json_dump = "\<lambda>d. ''{new}''" and now = "''now''"
      and n = 2 and p = "{1}" and s = Map.empty and pf = "Some ''{old}''" and pf' = None
      and json_load = "\<lambda>t. if t = ''{new}'' then Some \<lparr>last_updated = None,
            processed_indices = Some [1], songs = None\<rparr> else None"]
  by (simp add: ledger_text_def save_progress_def load_progress_def)

text \<open>
  Claim C1 as stated fails: a save that stops right after the file was opened leaves an
  empty file, and one that stops after two characters leaves two characters of the new
  text; neither is the old ledger or the new one.
\<close>

theorem save_not_atomic_counterexample:
  "save_progress (\<lambda>d. ''{new}'') ''now'' (Stops 0) {1} Map.empty (Some ''{old}'') = Some [] \<and>
   save_progress (\<lambda>d. ''{new}'') ''now'' (Stops 2) {1} Map.empty (Some ''{old}'') = Some ''{n''"
  by (simp add: save_progress_def ledger_text_def)

end
